theory Spec2Isabelle
  imports Main "HOL-Library.Word" "HOL-Library.Log_Nat"
begin

unbundle bit_operations_syntax

section \<open>PCA9685 16-channel PWM driver: phase cycles, channel transactions, servo curves\<close>

text \<open>
  A shallow embedding of the library's main file (the default build: hardware
  \<open>Wire\<close> transport, no debug output, begin/end registers not swapped).

  Conventions.
  \<^item> \<open>uint16_t\<close> is \<open>16 word\<close>, \<open>byte\<close> and \<open>uint8_t\<close> are \<open>8 word\<close>.
  \<^item> C's \<open>int\<close> (channel numbers, counts) is HOL's \<open>int\<close>: signed overflow is
    undefined in C, and for the channel numbers the public entry points let through
    (\<open>-1\<close> and \<open>0..15\<close>) no intermediate value leaves 16 bits. For any other channel
    number \<open>getPhaseCycle_machine\<close> computes with the widths of the C types, and
    \<open>getPhaseCycle_machine_in_range\<close> shows that the two agree from \<open>-120\<close> to \<open>127\<close>.
  \<^item> An expression on \<open>uint16_t\<close> operands is evaluated on integers (the operands are
    promoted to an \<open>int\<close> of more than 16 bits; where \<open>int\<close> has 16 bits the values are
    the same for these channel numbers) and truncated to 16 bits where it is stored in a
    \<open>uint16_t\<close>.
    A sum or difference that is stored at once is written as the word operation, which
    is that truncation.
  \<^item> Output parameters (\<open>uint16_t *phaseBegin, uint16_t *phaseEnd\<close>) become a
    returned pair; a member function takes the members it reads as arguments, or the
    record of them, and returns the record it has changed.
\<close>

subsection \<open>Constants\<close>

type_synonym uint16_t = "16 word"
type_synonym byte = "8 word"

datatype PCA9685_PhaseBalancer =
    PCA9685_PhaseBalancer_None
  | PCA9685_PhaseBalancer_Linear
  | PCA9685_PhaseBalancer_Dynamic
  | PCA9685_PhaseBalancer_Count
  | PCA9685_PhaseBalancer_Undefined

definition PCA9685_PWM_FULL :: uint16_t where
  "PCA9685_PWM_FULL = 0x1000"

definition PCA9685_PWM_MASK :: uint16_t where
  "PCA9685_PWM_MASK = 0x0FFF"

definition PCA9685_CHANNEL_COUNT :: int where
  "PCA9685_CHANNEL_COUNT = 16"

definition PCA9685_ALLLED_CHANNEL :: int where
  "PCA9685_ALLLED_CHANNEL = - 1"

definition PCA9685_PBLIN_STEPS :: int where
  "PCA9685_PBLIN_STEPS = uint PCA9685_PWM_FULL div PCA9685_CHANNEL_COUNT"

subsection \<open>\<open>PCA9685::getPhaseCycle\<close>\<close>

text \<open>
  The member \<open>_phaseBalancer\<close> is the first argument. In the \<open>switch\<close> the cases
  \<open>None\<close>, \<open>Count\<close> and \<open>Undefined\<close> share one body, and the body of \<open>Dynamic\<close> repeats
  it. In the \<open>Linear\<close> case \<open>phaseBegin0\<close> is the first value stored in \<open>*phaseBegin\<close>;
  \<open>max\<close> and \<open>min\<close> are Arduino's macros, evaluated on integers.
\<close>

definition getPhaseCycle ::
  "PCA9685_PhaseBalancer \<Rightarrow> int \<Rightarrow> uint16_t \<Rightarrow> uint16_t \<times> uint16_t" where
  "getPhaseCycle phaseBalancer channel pwmAmount =
    (if pwmAmount = 0 then (0, PCA9685_PWM_FULL)
     else if PCA9685_PWM_FULL \<le> pwmAmount then (PCA9685_PWM_FULL, 0)
     else if channel = PCA9685_ALLLED_CHANNEL then
       (let phaseBegin = 0 in (phaseBegin, (phaseBegin + pwmAmount) AND PCA9685_PWM_MASK))
     else
       (case phaseBalancer of
          PCA9685_PhaseBalancer_None \<Rightarrow>
            (let phaseBegin = 0 in (phaseBegin, (phaseBegin + pwmAmount) AND PCA9685_PWM_MASK))
        | PCA9685_PhaseBalancer_Count \<Rightarrow>
            (let phaseBegin = 0 in (phaseBegin, (phaseBegin + pwmAmount) AND PCA9685_PWM_MASK))
        | PCA9685_PhaseBalancer_Undefined \<Rightarrow>
            (let phaseBegin = 0 in (phaseBegin, (phaseBegin + pwmAmount) AND PCA9685_PWM_MASK))
        | PCA9685_PhaseBalancer_Linear \<Rightarrow>
            (let phaseBegin0 = (word_of_int
                   (max 0 (channel * PCA9685_PBLIN_STEPS - uint (drop_bit 1 pwmAmount))) :: uint16_t);
                 phaseEnd = (word_of_int
                   (min (uint PCA9685_PWM_FULL - 1) (uint phaseBegin0 + uint pwmAmount)) :: uint16_t);
                 phaseBegin = phaseEnd - pwmAmount
             in (phaseBegin, phaseEnd))
        | PCA9685_PhaseBalancer_Dynamic \<Rightarrow>
            (let phaseBegin = 0 in (phaseBegin, (phaseBegin + pwmAmount) AND PCA9685_PWM_MASK))))"

subsection \<open>\<open>PCA9685::getPhaseCycle\<close> on machine integers\<close>

text \<open>
  The same function for any channel number, with the widths of the two C types that the
  toolchain declares, not the library: \<open>int_bits\<close> for \<open>int\<close> and \<open>int_fast16_bits\<close> for
  \<open>int_fast16_t\<close> (AVR: 16 and 16; ARM and ESP: 32 and 32; x86-64 Linux: 32 and 64).
  \<^item> \<open>to_signed w x\<close> is \<open>x\<close> in a signed type of \<open>w\<close> bits, two's complement: a
    conversion to that type, or the result of a signed operation of that width. Where
    the operation overflows, which C leaves undefined, this is wrap-around.
  \<^item> \<open>u16_arith t x\<close> is the result \<open>x\<close> of an operation with a \<open>uint16_t\<close> operand.
    Where \<open>int\<close> has 16 bits, \<open>uint16_t\<close> is \<open>unsigned int\<close>, the other operand is converted
    to it and the operation is unsigned, modulo \<open>2^16\<close>; where \<open>int\<close> is wider, the operand
    is promoted to \<open>int\<close> and the operation is signed.
  \<^item> In the \<open>Linear\<close> case \<open>steps\<close> is \<open>PCA9685_PBLIN_STEPS\<close>, \<open>offset\<close> and \<open>half\<close> are the
    two casts to \<open>int_fast16_t\<close>, and \<open>difference\<close> is their difference, computed in the
    wider of \<open>int_fast16_t\<close> and \<open>int\<close>. A channel number outside the range of \<open>int\<close>
    stands for the \<open>int\<close> with the same low bits.
  \<^item> \<open>known_c_types\<close>: \<open>int\<close> and \<open>int_fast16_t\<close> of 16 bits both, or \<open>int\<close> of 32 bits
    or more with an \<open>int_fast16_t\<close> of 16 bits or more.
\<close>

record c_types =
  int_bits :: nat
  int_fast16_bits :: nat

definition known_c_types :: "c_types \<Rightarrow> bool" where
  "known_c_types t \<longleftrightarrow>
     (int_bits t = 16 \<and> int_fast16_bits t = 16) \<or> (32 \<le> int_bits t \<and> 16 \<le> int_fast16_bits t)"

definition to_signed :: "nat \<Rightarrow> int \<Rightarrow> int" where
  "to_signed w x = signed_take_bit (w - 1) x"

definition u16_arith :: "c_types \<Rightarrow> int \<Rightarrow> int" where
  "u16_arith t x = (if int_bits t \<le> 16 then take_bit 16 x else to_signed (int_bits t) x)"

definition getPhaseCycle_machine ::
  "c_types \<Rightarrow> PCA9685_PhaseBalancer \<Rightarrow> int \<Rightarrow> uint16_t \<Rightarrow> uint16_t \<times> uint16_t" where
  "getPhaseCycle_machine t balancer channel pwmAmount =
    (if pwmAmount = 0 then (0, PCA9685_PWM_FULL)
     else if PCA9685_PWM_FULL \<le> pwmAmount then (PCA9685_PWM_FULL, 0)
     else if to_signed (int_bits t) channel = PCA9685_ALLLED_CHANNEL then
       (let phaseBegin = 0 in (phaseBegin, (phaseBegin + pwmAmount) AND PCA9685_PWM_MASK))
     else
       (case balancer of
          PCA9685_PhaseBalancer_None \<Rightarrow>
            (let phaseBegin = 0 in (phaseBegin, (phaseBegin + pwmAmount) AND PCA9685_PWM_MASK))
        | PCA9685_PhaseBalancer_Count \<Rightarrow>
            (let phaseBegin = 0 in (phaseBegin, (phaseBegin + pwmAmount) AND PCA9685_PWM_MASK))
        | PCA9685_PhaseBalancer_Undefined \<Rightarrow>
            (let phaseBegin = 0 in (phaseBegin, (phaseBegin + pwmAmount) AND PCA9685_PWM_MASK))
        | PCA9685_PhaseBalancer_Linear \<Rightarrow>
            (let steps = u16_arith t (uint PCA9685_PWM_FULL div PCA9685_CHANNEL_COUNT);
                 offset = to_signed (int_fast16_bits t) (u16_arith t (channel * steps));
                 half = to_signed (int_fast16_bits t) (uint (drop_bit 1 pwmAmount));
                 difference = to_signed (max (int_fast16_bits t) (int_bits t)) (offset - half);
                 phaseBegin0 = (word_of_int (max 0 difference) :: uint16_t);
                 phaseEnd = (word_of_int
                   (min (u16_arith t (uint PCA9685_PWM_FULL - 1))
                        (u16_arith t (uint phaseBegin0 + uint pwmAmount))) :: uint16_t);
                 phaseBegin = phaseEnd - pwmAmount
             in (phaseBegin, phaseEnd))
        | PCA9685_PhaseBalancer_Dynamic \<Rightarrow>
            (let phaseBegin = 0 in (phaseBegin, (phaseBegin + pwmAmount) AND PCA9685_PWM_MASK))))"

definition avr :: c_types where "avr = \<lparr>int_bits = 16, int_fast16_bits = 16\<rparr>"
definition lp64 :: c_types where "lp64 = \<lparr>int_bits = 32, int_fast16_bits = 64\<rparr>"

subsection \<open>The decoding at the end of \<open>PCA9685::getChannelPWM\<close>\<close>

text \<open>
  The value \<open>retVal\<close> that \<open>getChannelPWM\<close> computes from the two register values it has
  read back (datasheet section 7.3.3).
\<close>

definition getChannelPWM_retVal :: "uint16_t \<Rightarrow> uint16_t \<Rightarrow> uint16_t" where
  "getChannelPWM_retVal phaseBegin phaseEnd =
    (if PCA9685_PWM_FULL \<le> phaseEnd then 0
     else if PCA9685_PWM_FULL \<le> phaseBegin then PCA9685_PWM_FULL
     else if phaseBegin \<le> phaseEnd then phaseEnd - phaseBegin
     else (phaseEnd + PCA9685_PWM_FULL) - phaseBegin)"

subsection \<open>The specification's decoding\<close>

text \<open>
  The four branches as the specification words them, on natural numbers (no wrap-around),
  with the test for a register value's full flag as a parameter.
\<close>

definition decodePhaseCycle_spec :: "(nat \<Rightarrow> bool) \<Rightarrow> nat \<Rightarrow> nat \<Rightarrow> nat" where
  "decodePhaseCycle_spec fullFlag phaseBegin phaseEnd =
    (if fullFlag phaseEnd then 0
     else if fullFlag phaseBegin then 4096
     else if phaseBegin \<le> phaseEnd then phaseEnd - phaseBegin
     else (phaseEnd + 4096) - phaseBegin)"

subsection \<open>The bus\<close>

text \<open>
  The transport (\<open>TwoWire\<close>) stays outside the library. The embedding records every call
  made on it, in order, in the field \<open>bus\<close> of the device, and takes what the transport
  answers from a \<open>TwoWire\<close> value: the result of \<open>endTransmission\<close>, the count that
  \<open>requestFrom\<close> returns and the value that \<open>read\<close> returns, each as a function of the
  calls made so far, the current one included. Any deterministic transport is such a value.
  The results of \<open>write\<close> are ignored by every caller and are left out.

  The record \<open>PCA9685\<close> holds the members the functions below use
  (\<open>_i2cAddr\<close>, \<open>_phaseBalancer\<close>, \<open>_isProxyAddresser\<close>, \<open>_lastI2CError\<close>).
\<close>

datatype bus_event =
    BeginTransmission byte
  | Write byte
  | EndTransmission
  | RequestFrom byte nat
  | Read

record TwoWire =
  endTransmission :: "bus_event list \<Rightarrow> byte"
  requestFrom :: "bus_event list \<Rightarrow> byte"
  read :: "bus_event list \<Rightarrow> int"

record PCA9685 =
  i2cAddr :: byte
  phaseBalancer :: PCA9685_PhaseBalancer
  isProxyAddresser :: bool
  lastI2CError :: byte
  bus :: "bus_event list"

definition PCA9685_LED0_REG :: byte where
  "PCA9685_LED0_REG = 0x06"

definition PCA9685_ALLLED_REG :: byte where
  "PCA9685_ALLLED_REG = 0xFA"

definition i2cWire_beginTransmission :: "byte \<Rightarrow> PCA9685 \<Rightarrow> PCA9685" where
  "i2cWire_beginTransmission addr dev =
     dev\<lparr>lastI2CError := 0, bus := bus dev @ [BeginTransmission addr]\<rparr>"

definition i2cWire_endTransmission :: "TwoWire \<Rightarrow> PCA9685 \<Rightarrow> byte \<times> PCA9685" where
  "i2cWire_endTransmission wire dev =
     (let calls = bus dev @ [EndTransmission];
          result = endTransmission wire calls
      in (result, dev\<lparr>lastI2CError := result, bus := calls\<rparr>))"

definition i2cWire_requestFrom :: "TwoWire \<Rightarrow> byte \<Rightarrow> nat \<Rightarrow> PCA9685 \<Rightarrow> byte \<times> PCA9685" where
  "i2cWire_requestFrom wire addr len dev =
     (let calls = bus dev @ [RequestFrom addr len]
      in (requestFrom wire calls, dev\<lparr>bus := calls\<rparr>))"

definition i2cWire_write :: "byte \<Rightarrow> PCA9685 \<Rightarrow> PCA9685" where
  "i2cWire_write data dev = dev\<lparr>bus := bus dev @ [Write data]\<rparr>"

definition i2cWire_read :: "TwoWire \<Rightarrow> PCA9685 \<Rightarrow> byte \<times> PCA9685" where
  "i2cWire_read wire dev =
     (let calls = bus dev @ [Read]
      in (word_of_int (read wire calls AND 0xFF), dev\<lparr>bus := calls\<rparr>))"

text \<open>Arduino's \<open>lowByte\<close> and \<open>highByte\<close> macros.\<close>

definition lowByte :: "uint16_t \<Rightarrow> byte" where
  "lowByte w = ucast (w AND 0xFF)"

definition highByte :: "uint16_t \<Rightarrow> byte" where
  "highByte w = ucast (drop_bit 8 w)"

definition writeChannelBegin :: "int \<Rightarrow> PCA9685 \<Rightarrow> PCA9685" where
  "writeChannelBegin channel dev =
     (let regAddress =
            (if channel \<noteq> PCA9685_ALLLED_CHANNEL
             then word_of_int (uint PCA9685_LED0_REG + channel * 0x04)
             else PCA9685_ALLLED_REG)
      in i2cWire_write regAddress (i2cWire_beginTransmission (i2cAddr dev) dev))"

definition writeChannelPWM :: "uint16_t \<Rightarrow> uint16_t \<Rightarrow> PCA9685 \<Rightarrow> PCA9685" where
  "writeChannelPWM phaseBegin phaseEnd dev =
     i2cWire_write (highByte phaseEnd)
       (i2cWire_write (lowByte phaseEnd)
         (i2cWire_write (highByte phaseBegin)
           (i2cWire_write (lowByte phaseBegin) dev)))"

definition writeChannelEnd :: "TwoWire \<Rightarrow> PCA9685 \<Rightarrow> PCA9685" where
  "writeChannelEnd wire dev = snd (i2cWire_endTransmission wire dev)"

subsection \<open>\<open>PCA9685::setChannelsPWM\<close>\<close>

text \<open>
  \<open>c_div\<close> is C's integer division, which truncates towards zero. The macro
  \<open>PCA9685_I2C_BUFFER_LENGTH\<close> comes from the header and the platform; it is the
  parameter \<open>bufferLength\<close>. The pointer \<open>pwmAmounts\<close> is the array it points to
  (\<open>amounts\<close>, indexed from the pointer) and the number of elements it has advanced
  by. The inner \<open>while\<close> loop counts \<open>maxChannels\<close> down; the outer one runs as long as
  channels are left and no transaction has failed, and it need not end: with a buffer
  of fewer than 5 bytes no channel fits a transaction, so the outer loop is a partial
  function whose value \<open>None\<close> stands for a call that does not return.
\<close>

definition c_div :: "int \<Rightarrow> int \<Rightarrow> int" where
  "c_div a b = (if (a < 0) = (b < 0) then \<bar>a\<bar> div \<bar>b\<bar> else - (\<bar>a\<bar> div \<bar>b\<bar>))"

record channels_loop =
  device :: PCA9685
  begChannel :: int
  numChannels :: int
  pwmAmounts :: nat

function setChannelsPWM_inner ::
  "(nat \<Rightarrow> uint16_t) \<Rightarrow> int \<Rightarrow> channels_loop \<Rightarrow> channels_loop" where
  "setChannelsPWM_inner amounts maxChannels s =
     (if maxChannels > 0 then
        (case getPhaseCycle (phaseBalancer (device s)) (begChannel s) (amounts (pwmAmounts s)) of
           (phaseBegin, phaseEnd) \<Rightarrow>
             setChannelsPWM_inner amounts (maxChannels - 1)
               (s\<lparr>device := writeChannelPWM phaseBegin phaseEnd (device s),
                  begChannel := begChannel s + 1,
                  pwmAmounts := pwmAmounts s + 1,
                  numChannels := numChannels s - 1\<rparr>))
      else s)"
  by pat_completeness auto
termination
  by (relation "measure (\<lambda>(amounts, maxChannels, s). nat maxChannels)") auto

text \<open>One pass of the outer loop: begin, the inner loop, end.\<close>

definition setChannelsPWM_chunk ::
  "TwoWire \<Rightarrow> int \<Rightarrow> (nat \<Rightarrow> uint16_t) \<Rightarrow> channels_loop \<Rightarrow> channels_loop" where
  "setChannelsPWM_chunk wire bufferLength amounts s =
     (let s1 = s\<lparr>device := writeChannelBegin (begChannel s) (device s)\<rparr>;
          maxChannels = min (numChannels s1) (c_div (bufferLength - 1) 4);
          s2 = setChannelsPWM_inner amounts maxChannels s1
      in s2\<lparr>device := writeChannelEnd wire (device s2)\<rparr>)"

partial_function (option) setChannelsPWM_loop ::
  "TwoWire \<Rightarrow> int \<Rightarrow> (nat \<Rightarrow> uint16_t) \<Rightarrow> channels_loop \<Rightarrow> PCA9685 option" where
  "setChannelsPWM_loop wire bufferLength amounts s =
     (if numChannels s > 0 then
        (let s' = setChannelsPWM_chunk wire bufferLength amounts s
         in if lastI2CError (device s') \<noteq> 0 then Some (device s')
            else setChannelsPWM_loop wire bufferLength amounts s')
      else Some (device s))"

declare setChannelsPWM_loop.simps [code]

definition setChannelsPWM ::
  "TwoWire \<Rightarrow> int \<Rightarrow> int \<Rightarrow> int \<Rightarrow> (nat \<Rightarrow> uint16_t) \<Rightarrow> PCA9685 \<Rightarrow> PCA9685 option" where
  "setChannelsPWM wire bufferLength begChannel0 numChannels0 amounts dev =
     (if begChannel0 < 0 \<or> begChannel0 > 15 \<or> numChannels0 < 0 then Some dev
      else
        (let numChannels1 =
               (if begChannel0 + numChannels0 > 16
                then numChannels0 - ((begChannel0 + numChannels0) - 16)
                else numChannels0)
         in setChannelsPWM_loop wire bufferLength amounts
              \<lparr>device = dev, begChannel = begChannel0, numChannels = numChannels1, pwmAmounts = 0\<rparr>))"

subsection \<open>\<open>PCA9685::getChannelPWM\<close>\<close>

function getChannelPWM_drain :: "TwoWire \<Rightarrow> int \<Rightarrow> PCA9685 \<Rightarrow> PCA9685" where
  "getChannelPWM_drain wire bytesRead dev =
     (if bytesRead > 0 then getChannelPWM_drain wire (bytesRead - 1) (snd (i2cWire_read wire dev))
      else dev)"
  by pat_completeness auto
termination
  by (relation "measure (\<lambda>(wire, bytesRead, dev). nat bytesRead)") auto

definition getChannelPWM :: "TwoWire \<Rightarrow> int \<Rightarrow> PCA9685 \<Rightarrow> uint16_t \<times> PCA9685" where
  "getChannelPWM wire channel dev =
     (if channel < 0 \<or> channel > 15 \<or> isProxyAddresser dev then (0, dev)
      else
        (let regAddress = (word_of_int (uint PCA9685_LED0_REG + push_bit 2 channel) :: byte);
             dev1 = i2cWire_write regAddress (i2cWire_beginTransmission (i2cAddr dev) dev);
             (result, dev2) = i2cWire_endTransmission wire dev1
         in if result \<noteq> 0 then (0, dev2)
            else
              (let (received, dev3) = i2cWire_requestFrom wire (i2cAddr dev2) 4 dev2;
                   bytesRead = uint received
               in if bytesRead \<noteq> 4 then
                    (0, (getChannelPWM_drain wire bytesRead dev3)\<lparr>lastI2CError := 4\<rparr>)
                  else
                    (let (b0, dev4) = i2cWire_read wire dev3;
                         (b1, dev5) = i2cWire_read wire dev4;
                         (b2, dev6) = i2cWire_read wire dev5;
                         (b3, dev7) = i2cWire_read wire dev6;
                         phaseBegin = (ucast b0 :: uint16_t) OR push_bit 8 (ucast b1);
                         phaseEnd = (ucast b2 :: uint16_t) OR push_bit 8 (ucast b3)
                     in (getChannelPWM_retVal phaseBegin phaseEnd, dev7)))))"

subsection \<open>The transactions of a multi-channel write, as the specification lays them out\<close>

text \<open>
  A write of \<open>n\<close> channels from channel \<open>beg\<close> on, at most \<open>k\<close> channels to a
  transaction: transaction \<open>m\<close> (counted from 0) starts at the register of channel
  \<open>beg + m * k\<close> and carries the four register bytes of each of its
  \<open>chunk_size k n m\<close> channels, between a begin and an end of its own; there are
  \<open>chunk_count k n\<close> transactions; \<open>bus_after \<dots> j\<close> is the bus once the first \<open>j\<close> of
  them have been made.
\<close>

definition channel_bytes :: "PCA9685_PhaseBalancer \<Rightarrow> int \<Rightarrow> uint16_t \<Rightarrow> bus_event list" where
  "channel_bytes balancer channel amount =
     (case getPhaseCycle balancer channel amount of
        (phaseBegin, phaseEnd) \<Rightarrow>
          [Write (lowByte phaseBegin), Write (highByte phaseBegin),
           Write (lowByte phaseEnd), Write (highByte phaseEnd)])"

definition chunk_size :: "nat \<Rightarrow> nat \<Rightarrow> nat \<Rightarrow> nat" where
  "chunk_size k n m = min k (n - m * k)"

definition chunk_payload ::
  "PCA9685_PhaseBalancer \<Rightarrow> nat \<Rightarrow> int \<Rightarrow> nat \<Rightarrow> (nat \<Rightarrow> uint16_t) \<Rightarrow> nat \<Rightarrow> bus_event list" where
  "chunk_payload balancer k beg n amounts m =
     concat (map (\<lambda>x. channel_bytes balancer (beg + int (m * k + x)) (amounts (m * k + x)))
                 [0 ..< chunk_size k n m])"

definition chunk_transaction ::
  "PCA9685 \<Rightarrow> nat \<Rightarrow> int \<Rightarrow> nat \<Rightarrow> (nat \<Rightarrow> uint16_t) \<Rightarrow> nat \<Rightarrow> bus_event list" where
  "chunk_transaction dev k beg n amounts m =
     [BeginTransmission (i2cAddr dev),
      Write (word_of_int (uint PCA9685_LED0_REG + (beg + int (m * k)) * 4))]
     @ chunk_payload (phaseBalancer dev) k beg n amounts m
     @ [EndTransmission]"

definition chunk_count :: "nat \<Rightarrow> nat \<Rightarrow> nat" where
  "chunk_count k n = (n + k - 1) div k"

definition bus_after ::
  "PCA9685 \<Rightarrow> nat \<Rightarrow> int \<Rightarrow> nat \<Rightarrow> (nat \<Rightarrow> uint16_t) \<Rightarrow> nat \<Rightarrow> bus_event list" where
  "bus_after dev k beg n amounts j =
     bus dev @ concat (map (chunk_transaction dev k beg n amounts) [0 ..< j])"

text \<open>The state of the outer loop after \<open>j\<close> transactions, the last of which returned \<open>e\<close>.\<close>

definition after_chunks ::
  "PCA9685 \<Rightarrow> nat \<Rightarrow> int \<Rightarrow> nat \<Rightarrow> (nat \<Rightarrow> uint16_t) \<Rightarrow> nat \<Rightarrow> byte \<Rightarrow> channels_loop" where
  "after_chunks dev k beg n amounts j e =
     \<lparr>device = dev\<lparr>lastI2CError := e, bus := bus_after dev k beg n amounts j\<rparr>,
      begChannel = beg + int (min n (j * k)),
      numChannels = int (n - j * k),
      pwmAmounts = min n (j * k)\<rparr>"

subsection \<open>Single-precision arithmetic\<close>

text \<open>
  A \<open>float\<close> is an IEEE 754 binary32 value, here the rational number it stands for
  (infinities and NaN are left out: the calibration values are at most 4096 and the
  angle is clamped, so no operation below overflows for a finite angle). Every
  operation gives the exact result rounded to the nearest binary32 value, ties to the
  even significand (\<open>float_round\<close>: 24 significant bits, least exponent \<open>-126\<close>).
  \<open>roundf\<close> rounds to the nearest integer, halves away from zero.
\<close>

type_synonym c_float = rat

definition pow2 :: "int \<Rightarrow> rat" where
  "pow2 e = (if 0 \<le> e then 2 ^ nat e else 1 / 2 ^ nat (- e))"

definition ilog2 :: "rat \<Rightarrow> int" where
  "ilog2 x = (case quotient_of \<bar>x\<bar> of (p, q) \<Rightarrow>
                (let e = bitlen p - bitlen q in if pow2 e \<le> \<bar>x\<bar> then e else e - 1))"

definition round_half_even :: "rat \<Rightarrow> int" where
  "round_half_even x =
     (let n = \<lfloor>x\<rfloor>; r = x - of_int n
      in if r < 1 / 2 then n else if 1 / 2 < r then n + 1 else if even n then n else n + 1)"

definition float_round :: "rat \<Rightarrow> c_float" where
  "float_round x =
     (if x = 0 then 0
      else (let ulp = pow2 (max (ilog2 x) (- 126) - 23)
            in of_int (round_half_even (x / ulp)) * ulp))"

definition float_add :: "c_float \<Rightarrow> c_float \<Rightarrow> c_float" where
  "float_add a b = float_round (a + b)"

definition float_sub :: "c_float \<Rightarrow> c_float \<Rightarrow> c_float" where
  "float_sub a b = float_round (a - b)"

definition float_mul :: "c_float \<Rightarrow> c_float \<Rightarrow> c_float" where
  "float_mul a b = float_round (a * b)"

definition float_div :: "c_float \<Rightarrow> c_float \<Rightarrow> c_float" where
  "float_div a b = float_round (a / b)"

definition roundf :: "c_float \<Rightarrow> c_float" where
  "roundf x = (if 0 \<le> x then of_int \<lfloor>x + 1 / 2\<rfloor> else - of_int \<lfloor>- x + 1 / 2\<rfloor>)"

definition float_to_uint16 :: "c_float \<Rightarrow> uint16_t option" where
  "float_to_uint16 x =
     (if - 1 < x \<and> x < 65536 then Some (word_of_int (if 0 \<le> x then \<lfloor>x\<rfloor> else 0)) else None)"

definition constrain :: "c_float \<Rightarrow> c_float \<Rightarrow> c_float \<Rightarrow> c_float" where
  "constrain amt low high = (if amt < low then low else if amt > high then high else amt)"

subsection \<open>\<open>PCA9685_ServoEval\<close>\<close>

text \<open>
  The constructor with three calibration values and \<open>pwmForAngle\<close>. The arrays of the
  constructor (\<open>x\<close>, \<open>y\<close>, \<open>h\<close>, \<open>l\<close>, \<open>u\<close>, \<open>a\<close>, \<open>z\<close>, \<open>c\<close>, \<open>b\<close>, \<open>d\<close>) become
  one variable per element, and its two loops, which run once (\<open>i = 1\<close>) and twice
  (\<open>i = 1\<close>, then \<open>i = 0\<close>), are written out. \<open>_coeff\<close> is a list of 2 or of 8 values.
  \<open>constrain\<close> is Arduino's macro. The conversion of a \<open>float\<close> to \<open>uint16_t\<close> is defined
  in C only for values whose integer part fits; elsewhere the result is \<open>None\<close>.
\<close>

record PCA9685_ServoEval =
  coeff :: "c_float list"
  isCSpline :: bool

definition uint16_to_float :: "uint16_t \<Rightarrow> c_float" where
  "uint16_to_float w = of_int (uint w)"

definition PCA9685_ServoEval3 :: "uint16_t \<Rightarrow> uint16_t \<Rightarrow> uint16_t \<Rightarrow> PCA9685_ServoEval" where
  "PCA9685_ServoEval3 minPWMAmount0 midPWMAmount0 maxPWMAmount0 =
     (let minPWMAmount = min (max minPWMAmount0 0) PCA9685_PWM_FULL;
          midPWMAmount = min (max midPWMAmount0 minPWMAmount) PCA9685_PWM_FULL;
          maxPWMAmount = min (max maxPWMAmount0 midPWMAmount) PCA9685_PWM_FULL
      in if uint maxPWMAmount - uint midPWMAmount \<noteq> uint midPWMAmount - uint minPWMAmount then
           (let x0 = 0; x1 = 90; x2 = 180;
                y0 = uint16_to_float minPWMAmount;
                y1 = uint16_to_float midPWMAmount;
                y2 = uint16_to_float maxPWMAmount;
                h0 = float_sub x1 x0;
                u0 = 0; z0 = 0;
                c2 = 0;
                h1 = float_sub x2 x1;
                l0 = float_sub (float_mul 2 (float_sub x2 x0)) (float_mul h0 u0);
                u1 = float_div h1 l0;
                a0 = float_sub (float_mul (float_div 3 h1) (float_sub y2 y1))
                               (float_mul (float_div 3 h0) (float_sub y1 y0));
                z1 = float_div (float_sub a0 (float_mul h0 z0)) l0;
                c1 = float_sub z1 (float_mul u1 c2);
                b1 = float_sub (float_div (float_sub y2 y1) h1)
                               (float_div (float_mul h1 (float_add c2 (float_mul 2 c1))) 3);
                d1 = float_div (float_sub c2 c1) (float_mul 3 h1);
                c0 = float_sub z0 (float_mul u0 c1);
                b0 = float_sub (float_div (float_sub y1 y0) h0)
                               (float_div (float_mul h0 (float_add c1 (float_mul 2 c0))) 3);
                d0 = float_div (float_sub c1 c0) (float_mul 3 h0)
            in \<lparr>coeff = [y0, b0, c0, d0, y1, b1, c1, d1], isCSpline = True\<rparr>)
         else
           \<lparr>coeff = [uint16_to_float minPWMAmount,
                     float_div (of_int (uint maxPWMAmount - uint minPWMAmount)) 180],
            isCSpline = False\<rparr>)"

definition pwmForAngle :: "PCA9685_ServoEval \<Rightarrow> c_float \<Rightarrow> uint16_t option" where
  "pwmForAngle ev angle0 =
     (let angle = constrain (float_add angle0 90) 0 180;
          c = coeff ev;
          retVal =
            (if \<not> isCSpline ev then float_add (c ! 0) (float_mul (c ! 1) angle)
             else if angle \<le> 90 then
               float_add
                 (float_add (float_add (c ! 0) (float_mul (c ! 1) angle))
                            (float_mul (float_mul (c ! 2) angle) angle))
                 (float_mul (float_mul (float_mul (c ! 3) angle) angle) angle)
             else
               (let angle = float_sub angle 90 in
                float_add
                  (float_add (float_add (c ! 4) (float_mul (c ! 5) angle))
                             (float_mul (float_mul (c ! 6) angle) angle))
                  (float_mul (float_mul (float_mul (c ! 7) angle) angle) angle)))
      in map_option (\<lambda>r. min (max r 0) PCA9685_PWM_FULL) (float_to_uint16 (roundf retVal)))"

definition pwmForSpeed :: "PCA9685_ServoEval \<Rightarrow> c_float \<Rightarrow> uint16_t option" where
  "pwmForSpeed ev speed = pwmForAngle ev (float_mul speed 90)"

subsection \<open>Example transports and an example device\<close>

text \<open>
  A transport that acknowledges everything, one that reports error 2 (address NACK) at
  every end of transmission once more than \<open>limit\<close> calls have been made, one that
  delivers 3 bytes where 4 are requested, and a device at address \<open>0x40\<close> with the
  Linear balancer and no calls made yet.
\<close>

definition wire_ok :: TwoWire where
  "wire_ok = \<lparr>endTransmission = (\<lambda>calls. 0), requestFrom = (\<lambda>calls. 4), read = (\<lambda>calls. 0)\<rparr>"

definition wire_nack_after :: "nat \<Rightarrow> TwoWire" where
  "wire_nack_after limit =
     \<lparr>endTransmission = (\<lambda>calls. if limit < length calls then 2 else 0),
      requestFrom = (\<lambda>calls. 4), read = (\<lambda>calls. 0)\<rparr>"

definition wire_short :: TwoWire where
  "wire_short = \<lparr>endTransmission = (\<lambda>calls. 0), requestFrom = (\<lambda>calls. 3), read = (\<lambda>calls. 0)\<rparr>"

definition dev0 :: PCA9685 where
  "dev0 = \<lparr>i2cAddr = 0x40, phaseBalancer = PCA9685_PhaseBalancer_Linear,
           isProxyAddresser = False, lastI2CError = 0, bus = []\<rparr>"

section \<open>Phase cycles\<close>

lemmas pca_consts = PCA9685_PWM_FULL_def PCA9685_PWM_MASK_def PCA9685_CHANNEL_COUNT_def
  PCA9685_ALLLED_CHANNEL_def PCA9685_PBLIN_STEPS_def

lemma mask_id: "w < (0x1000 :: uint16_t) \<Longrightarrow> w AND 0x0FFF = w"
  using less_mask_eq [of w 12] by (simp add: mask_eq_exp_minus_1)

lemma uint_word16_id: "0 \<le> k \<Longrightarrow> k < 65536 \<Longrightarrow> uint (word_of_int k :: uint16_t) = k"
  by (simp add: uint_word_of_int take_bit_int_eq_self)

lemma not_bit12:
  fixes w :: uint16_t
  assumes "w < 4096"
  shows "\<not> bit w 12"
proof -
  have m: "w AND mask 12 = w" using less_mask_eq [of w 12] assms by simp
  have "\<not> bit (w AND mask 12) 12" by (simp only: bit_and_iff bit_mask_iff) simp
  then show ?thesis unfolding m .
qed

text \<open>Below full scale, without a phase shift: the begin value is 0, the end value the amount.\<close>

lemma getPhaseCycle_unshifted:
  assumes "pwmAmount \<noteq> 0" "pwmAmount < PCA9685_PWM_FULL"
    and "channel = PCA9685_ALLLED_CHANNEL \<or> balancer \<noteq> PCA9685_PhaseBalancer_Linear"
  shows "getPhaseCycle balancer channel pwmAmount = (0, pwmAmount)"
proof -
  have m: "pwmAmount AND PCA9685_PWM_MASK = pwmAmount"
    using assms(2) by (simp add: pca_consts mask_id)
  have n: "\<not> PCA9685_PWM_FULL \<le> pwmAmount"
    using assms(2) by simp
  show ?thesis
    using assms(1,3) n m
    by (cases balancer) (auto simp add: getPhaseCycle_def Let_def)
qed

text \<open>The three assignments of the Linear case, read as integers.\<close>

lemma Linear_phaseEnd:
  fixes pwmAmount phaseBegin0 :: uint16_t
  assumes "uint pwmAmount < 4096"
  defines "phaseEnd \<equiv> (word_of_int
      (min (uint PCA9685_PWM_FULL - 1) (uint phaseBegin0 + uint pwmAmount)) :: uint16_t)"
  shows "uint phaseEnd = min 4095 (uint phaseBegin0 + uint pwmAmount)"
proof -
  have "0 \<le> min 4095 (uint phaseBegin0 + uint pwmAmount)" by simp
  moreover have "min 4095 (uint phaseBegin0 + uint pwmAmount) < 65536" by simp
  ultimately show ?thesis
    unfolding phaseEnd_def by (simp add: PCA9685_PWM_FULL_def uint_word16_id)
qed

lemma Linear_phaseBegin:
  fixes pwmAmount phaseEnd :: uint16_t
  assumes "uint pwmAmount \<le> uint phaseEnd"
  shows "uint (phaseEnd - pwmAmount) = uint phaseEnd - uint pwmAmount"
  using assms by (simp add: uint_sub_lem)

lemma getPhaseCycle_Linear:
  assumes "pwmAmount \<noteq> 0" "pwmAmount < PCA9685_PWM_FULL" "channel \<noteq> PCA9685_ALLLED_CHANNEL"
    and "getPhaseCycle PCA9685_PhaseBalancer_Linear channel pwmAmount = (phaseBegin, phaseEnd)"
  shows "uint phaseEnd = min 4095
      (uint (word_of_int (max 0 (channel * 256 - uint pwmAmount div 2)) :: uint16_t) + uint pwmAmount)"
    and "uint phaseBegin = uint phaseEnd - uint pwmAmount"
proof -
  define phaseBegin0 :: uint16_t where
    "phaseBegin0 = word_of_int (max 0 (channel * PCA9685_PBLIN_STEPS - uint (drop_bit 1 pwmAmount)))"
  have lt: "uint pwmAmount < 4096"
    using assms(2) by (simp add: PCA9685_PWM_FULL_def word_less_def)
  have pe: "phaseEnd = word_of_int (min (uint PCA9685_PWM_FULL - 1) (uint phaseBegin0 + uint pwmAmount))"
    and pb: "phaseBegin = phaseEnd - pwmAmount"
    using assms by (auto simp add: getPhaseCycle_def Let_def phaseBegin0_def linorder_not_le [symmetric])
  have e: "uint phaseEnd = min 4095 (uint phaseBegin0 + uint pwmAmount)"
    unfolding pe using lt by (rule Linear_phaseEnd)
  have half: "uint (drop_bit (Suc 0) pwmAmount) = uint pwmAmount div 2"
    by (simp add: drop_bit_eq_div uint_div_distrib)
  show "uint phaseEnd = min 4095
      (uint (word_of_int (max 0 (channel * 256 - uint pwmAmount div 2)) :: uint16_t) + uint pwmAmount)"
    using e by (simp add: phaseBegin0_def half pca_consts)
  have "uint pwmAmount \<le> uint phaseEnd"
    using e lt uint_ge_0 [of phaseBegin0] by linarith
  then show "uint phaseBegin = uint phaseEnd - uint pwmAmount"
    unfolding pb by (rule Linear_phaseBegin)
qed

text \<open>
  C1. With the balancer None, for every channel (a channel number or the ALLLED value -1)
  and every amount from 1 to 4095, decoding the pair that \<open>getPhaseCycle\<close> computes
  gives back the amount.
\<close>

theorem getPhaseCycle_None_roundtrip:
  assumes "1 \<le> pwmAmount" and "pwmAmount \<le> 4095"
  shows "(case getPhaseCycle PCA9685_PhaseBalancer_None channel pwmAmount of
            (phaseBegin, phaseEnd) \<Rightarrow> getChannelPWM_retVal phaseBegin phaseEnd) = pwmAmount"
proof -
  have nz: "pwmAmount \<noteq> 0" using assms(1) by auto
  have lt: "pwmAmount < PCA9685_PWM_FULL"
    using assms(2) by (simp add: PCA9685_PWM_FULL_def word_le_def word_less_def)
  have "getPhaseCycle PCA9685_PhaseBalancer_None channel pwmAmount = (0, pwmAmount)"
    using nz lt by (rule getPhaseCycle_unshifted) simp
  moreover have "getChannelPWM_retVal 0 pwmAmount = pwmAmount"
    using lt by (simp add: getChannelPWM_retVal_def PCA9685_PWM_FULL_def linorder_not_le [symmetric])
  ultimately show ?thesis by simp
qed

theorem getPhaseCycle_None_roundtrip_witness:
  "(1 :: uint16_t) \<le> 2048 \<and> (2048 :: uint16_t) \<le> 4095 \<and>
   (case getPhaseCycle PCA9685_PhaseBalancer_None 3 2048 of
      (phaseBegin, phaseEnd) \<Rightarrow> getChannelPWM_retVal phaseBegin phaseEnd) = 2048"
  using getPhaseCycle_None_roundtrip [of 2048 3] by simp

lemma bit12_iff:
  fixes w :: uint16_t
  assumes "w < 0x2000"
  shows "bit (unat w) 12 \<longleftrightarrow> 4096 \<le> unat w"
proof -
  have u: "unat w < 8192" using assms by (simp add: word_less_nat_alt)
  have "bit (unat w) 12 \<longleftrightarrow> odd (unat w div 4096)"
    by (simp add: bit_iff_odd)
  also have "\<dots> \<longleftrightarrow> 4096 \<le> unat w"
  proof
    assume "odd (unat w div 4096)"
    then have "unat w div 4096 \<noteq> 0" by (metis even_zero)
    then show "4096 \<le> unat w" by (simp add: div_eq_0_iff)
  next
    assume "4096 \<le> unat w"
    with u have "unat w div 4096 = 1" by simp
    then show "odd (unat w div 4096)" by simp
  qed
  finally show ?thesis .
qed

lemma getChannelPWM_retVal_nat:
  "unat (getChannelPWM_retVal phaseBegin phaseEnd) =
   decodePhaseCycle_spec (\<lambda>v. 4096 \<le> v) (unat phaseBegin) (unat phaseEnd)"
proof (cases "PCA9685_PWM_FULL \<le> phaseEnd \<or> PCA9685_PWM_FULL \<le> phaseBegin")
  case True
  then show ?thesis
    by (auto simp add: getChannelPWM_retVal_def decodePhaseCycle_spec_def PCA9685_PWM_FULL_def
        word_le_nat_alt)
next
  case False
  then have lb: "unat phaseBegin < 4096" and le: "unat phaseEnd < 4096"
    by (simp_all add: PCA9685_PWM_FULL_def word_le_nat_alt)
  show ?thesis
  proof (cases "phaseBegin \<le> phaseEnd")
    case True
    then have "unat (phaseEnd - phaseBegin) = unat phaseEnd - unat phaseBegin"
      by (simp add: unat_sub)
    with True False lb le show ?thesis
      by (simp add: getChannelPWM_retVal_def decodePhaseCycle_spec_def word_le_nat_alt)
  next
    case wrap: False
    have s: "unat (phaseEnd + PCA9685_PWM_FULL) = unat phaseEnd + 4096"
      using le by (simp add: PCA9685_PWM_FULL_def unat_word_ariths)
    have "phaseBegin \<le> phaseEnd + PCA9685_PWM_FULL"
      using lb s by (simp add: word_le_nat_alt)
    then have "unat ((phaseEnd + PCA9685_PWM_FULL) - phaseBegin)
        = unat phaseEnd + 4096 - unat phaseBegin"
      by (simp add: unat_sub s)
    with wrap False lb le show ?thesis
      by (simp add: getChannelPWM_retVal_def decodePhaseCycle_spec_def word_le_nat_alt)
  qed
qed

text \<open>
  C2. The decoding of \<open>getChannelPWM\<close> is the four-branch definition: 0 when the end
  value's full flag is set, also when the begin value's flag is set too; otherwise 4096
  when the begin value's flag is set; otherwise the span from begin to end, taken across
  the cycle boundary when begin is above end. The code tests a flag as \<open>value \<ge> 4096\<close>:
  with that test the equation holds for all 16-bit values, and the 16-bit arithmetic never
  wraps. On the register values of the chip's encoding (a 12-bit value and the flag, so
  below \<open>0x2000\<close>) that test is the test of bit 12, the flag itself.
\<close>

theorem getChannelPWM_retVal_spec:
  "unat (getChannelPWM_retVal phaseBegin phaseEnd) =
     decodePhaseCycle_spec (\<lambda>v. 4096 \<le> v) (unat phaseBegin) (unat phaseEnd) \<and>
   (phaseBegin < 0x2000 \<and> phaseEnd < 0x2000 \<longrightarrow>
      unat (getChannelPWM_retVal phaseBegin phaseEnd) =
        decodePhaseCycle_spec (\<lambda>v. bit v 12) (unat phaseBegin) (unat phaseEnd))"
proof (intro conjI impI)
  show "unat (getChannelPWM_retVal phaseBegin phaseEnd) =
     decodePhaseCycle_spec (\<lambda>v. 4096 \<le> v) (unat phaseBegin) (unat phaseEnd)"
    by (rule getChannelPWM_retVal_nat)
next
  assume "phaseBegin < 0x2000 \<and> phaseEnd < 0x2000"
  then have "bit (unat phaseBegin) 12 \<longleftrightarrow> 4096 \<le> unat phaseBegin"
    and "bit (unat phaseEnd) 12 \<longleftrightarrow> 4096 \<le> unat phaseEnd"
    by (simp_all add: bit12_iff)
  then have "decodePhaseCycle_spec (\<lambda>v. bit v 12) (unat phaseBegin) (unat phaseEnd) =
             decodePhaseCycle_spec (\<lambda>v. 4096 \<le> v) (unat phaseBegin) (unat phaseEnd)"
    by (simp add: decodePhaseCycle_spec_def)
  then show "unat (getChannelPWM_retVal phaseBegin phaseEnd) =
        decodePhaseCycle_spec (\<lambda>v. bit v 12) (unat phaseBegin) (unat phaseEnd)"
    by (simp only: getChannelPWM_retVal_nat)
qed

theorem getChannelPWM_retVal_spec_witness:
  "(0x1000 :: uint16_t) < 0x2000 \<and> (0x1FFF :: uint16_t) < 0x2000 \<and>
   unat (getChannelPWM_retVal 0x1000 0x1FFF) = 0 \<and>
   decodePhaseCycle_spec (\<lambda>v. bit v 12) (unat (0x1000 :: uint16_t)) (unat (0x1FFF :: uint16_t)) = 0 \<and>
   getChannelPWM_retVal 0x1000 0x1000 = 0 \<and>
   getChannelPWM_retVal 0x1000 0x0123 = 4096 \<and>
   getChannelPWM_retVal 0x0100 0x0300 = 0x0200 \<and>
   getChannelPWM_retVal 0x0F00 0x0100 = 0x0200"
proof -
  have d: "decodePhaseCycle_spec (\<lambda>v. bit v 12) (unat (0x1000 :: uint16_t)) (unat (0x1FFF :: uint16_t)) = 0"
    by (simp add: decodePhaseCycle_spec_def bit_iff_odd)
  show ?thesis
    using getChannelPWM_retVal_spec [of 4096 8191] d
    by (simp add: getChannelPWM_retVal_def PCA9685_PWM_FULL_def)
qed

text \<open>
  C3. For every channel and every balancer, the amount 0 gives the full-off pair (0, 4096),
  and an amount of 4096 or more gives the full-on pair (4096, 0).
\<close>

theorem getPhaseCycle_full_off_on:
  "getPhaseCycle balancer channel 0 = (0, 4096) \<and>
   (4096 \<le> pwmAmount \<longrightarrow> getPhaseCycle balancer channel pwmAmount = (4096, 0))"
  by (auto simp add: getPhaseCycle_def PCA9685_PWM_FULL_def)

theorem getPhaseCycle_full_off_on_witness:
  "getPhaseCycle PCA9685_PhaseBalancer_Linear 7 0 = (0, 4096) \<and>
   (4096 :: uint16_t) \<le> 5000 \<and>
   getPhaseCycle PCA9685_PhaseBalancer_Linear 7 5000 = (4096, 0)"
  using getPhaseCycle_full_off_on [of PCA9685_PhaseBalancer_Linear 7 5000] by simp

text \<open>
  C4. With the balancer Linear, for the channels 0 to 15 and every amount from 1 to 4095,
  the window \<open>phaseEnd - phaseBegin\<close> modulo 4096 is the amount, also where the end value
  was clamped to 4095: the end value is
  \<open>min 4095 (max 0 (channel * 256 - amount div 2) + amount)\<close>, and the begin value is the
  end value less the amount.
\<close>

theorem getPhaseCycle_Linear_width:
  assumes "0 \<le> channel" and "channel \<le> 15" and "1 \<le> pwmAmount" and "pwmAmount \<le> 4095"
  shows "case getPhaseCycle PCA9685_PhaseBalancer_Linear channel pwmAmount of
           (phaseBegin, phaseEnd) \<Rightarrow>
             (uint phaseEnd - uint phaseBegin) mod 4096 = uint pwmAmount \<and>
             uint phaseEnd = min 4095 (max 0 (channel * 256 - uint pwmAmount div 2) + uint pwmAmount) \<and>
             uint phaseBegin = uint phaseEnd - uint pwmAmount"
proof -
  obtain phaseBegin phaseEnd
    where r: "getPhaseCycle PCA9685_PhaseBalancer_Linear channel pwmAmount = (phaseBegin, phaseEnd)"
    by (cases "getPhaseCycle PCA9685_PhaseBalancer_Linear channel pwmAmount")
  have nz: "pwmAmount \<noteq> 0" using assms(3) by auto
  have lt: "pwmAmount < PCA9685_PWM_FULL"
    using assms(4) by (simp add: PCA9685_PWM_FULL_def word_le_def word_less_def)
  have ch: "channel \<noteq> PCA9685_ALLLED_CHANNEL"
    using assms(1) by (simp add: PCA9685_ALLLED_CHANNEL_def)
  have p: "0 \<le> uint pwmAmount" "uint pwmAmount < 4096"
    using assms(4) by (simp_all add: word_le_def)
  have "0 \<le> max 0 (channel * 256 - uint pwmAmount div 2)" by simp
  moreover have "max 0 (channel * 256 - uint pwmAmount div 2) < 65536"
  proof -
    have "0 \<le> uint pwmAmount div 2" using p(1) by simp
    with assms(2) show ?thesis by linarith
  qed
  ultimately have b0: "uint (word_of_int (max 0 (channel * 256 - uint pwmAmount div 2)) :: uint16_t)
      = max 0 (channel * 256 - uint pwmAmount div 2)"
    by (rule uint_word16_id)
  have e: "uint phaseEnd = min 4095 (max 0 (channel * 256 - uint pwmAmount div 2) + uint pwmAmount)"
    using getPhaseCycle_Linear(1) [OF nz lt ch r] by (simp only: b0)
  have b: "uint phaseBegin = uint phaseEnd - uint pwmAmount"
    using nz lt ch r by (rule getPhaseCycle_Linear(2))
  have "uint phaseEnd - uint phaseBegin = uint pwmAmount" using b by simp
  then have "(uint phaseEnd - uint phaseBegin) mod 4096 = uint pwmAmount"
    using p by simp
  then show ?thesis using e b by (simp add: r)
qed

theorem getPhaseCycle_Linear_width_witness:
  "(0 :: int) \<le> 15 \<and> (15 :: int) \<le> 15 \<and> (1 :: uint16_t) \<le> 3000 \<and> (3000 :: uint16_t) \<le> 4095 \<and>
   getPhaseCycle PCA9685_PhaseBalancer_Linear 15 3000 = (1095, 4095) \<and>
   (uint (4095 :: uint16_t) - uint (1095 :: uint16_t)) mod 4096 = uint (3000 :: uint16_t)"
proof -
  have r: "getPhaseCycle PCA9685_PhaseBalancer_Linear 15 3000 = (1095, 4095)"
    by (simp add: getPhaseCycle_def pca_consts Let_def)
  show ?thesis
    using getPhaseCycle_Linear_width [of 15 3000] by (simp add: r)
qed

subsection \<open>Machine integers\<close>

lemma to_signed_id: "- (2 ^ (w - 1)) \<le> x \<Longrightarrow> x < 2 ^ (w - 1) \<Longrightarrow> to_signed w x = x"
  by (simp add: to_signed_def signed_take_bit_int_eq_self)

lemma to_signed_less: "to_signed w x < 2 ^ (w - 1)"
  by (simp add: to_signed_def signed_take_bit_int_less_exp)

lemma pow2_mono_int: "m \<le> n \<Longrightarrow> (2 :: int) ^ m \<le> 2 ^ n"
  by (rule power_increasing) simp_all

lemma to_signed_small:
  assumes "16 \<le> w" "- 32768 \<le> x" "x < 32768"
  shows "to_signed w x = x"
proof -
  have "(2 :: int) ^ 15 \<le> 2 ^ (w - 1)" using assms(1) by (intro pow2_mono_int) simp
  then have "(32768 :: int) \<le> 2 ^ (w - 1)" by simp
  with assms(2,3) show ?thesis by (intro to_signed_id) linarith+
qed

lemma to_signed_int32:
  assumes "32 \<le> w" "0 \<le> x" "x < 131072"
  shows "to_signed w x = x"
proof -
  have "(2 :: int) ^ 17 \<le> 2 ^ (w - 1)" using assms(1) by (intro pow2_mono_int) simp
  then have "(131072 :: int) \<le> 2 ^ (w - 1)" by simp
  with assms(2,3) show ?thesis by (intro to_signed_id) linarith+
qed

lemma u16_arith_id:
  assumes "known_c_types t" "0 \<le> x" "x < 131072" "int_bits t = 16 \<longrightarrow> x < 65536"
  shows "u16_arith t x = x"
proof (cases "int_bits t = 16")
  case True
  with assms(2,4) show ?thesis by (simp add: u16_arith_def take_bit_int_eq_self)
next
  case False
  with assms(1) have w: "32 \<le> int_bits t" by (simp add: known_c_types_def)
  then have "\<not> int_bits t \<le> 16" by simp
  then show ?thesis using to_signed_int32 [OF w assms(2,3)] by (simp add: u16_arith_def)
qed

text \<open>The first value stored in \<open>*phaseBegin\<close>: where \<open>int\<close> has 16 bits it is below \<open>2^15\<close>.\<close>

lemma machine_phaseBegin0:
  fixes d :: int
  assumes "known_c_types t"
  defines "phaseBegin0 \<equiv> (word_of_int (max 0
      (to_signed (max (int_fast16_bits t) (int_bits t)) d)) :: uint16_t)"
  shows "int_bits t = 16 \<longrightarrow> uint phaseBegin0 < 32768"
proof
  assume i: "int_bits t = 16"
  with assms(1) have f: "int_fast16_bits t = 16" by (simp add: known_c_types_def)
  have "to_signed 16 d < 2 ^ (16 - 1)" by (rule to_signed_less)
  then have "max 0 (to_signed 16 d) < 32768" by simp
  moreover have "0 \<le> max 0 (to_signed 16 d)" by simp
  ultimately have "uint (word_of_int (max 0 (to_signed 16 d)) :: uint16_t) < 32768"
    by (simp add: uint_word16_id)
  then show "uint phaseBegin0 < 32768" by (simp add: phaseBegin0_def i f)
qed

lemma machine_phaseEnd:
  fixes pwmAmount phaseBegin0 :: uint16_t
  assumes "known_c_types t" "uint pwmAmount < 4096" "int_bits t = 16 \<longrightarrow> uint phaseBegin0 < 32768"
  shows "(word_of_int (min (u16_arith t (uint PCA9685_PWM_FULL - 1))
                          (u16_arith t (uint phaseBegin0 + uint pwmAmount))) :: uint16_t)
         = word_of_int (min (uint PCA9685_PWM_FULL - 1) (uint phaseBegin0 + uint pwmAmount))"
proof -
  have b: "uint phaseBegin0 < 65536" using uint_bounded [of phaseBegin0] by simp
  have "u16_arith t (uint PCA9685_PWM_FULL - 1) = uint PCA9685_PWM_FULL - 1"
    using assms(1) by (intro u16_arith_id) (simp_all add: PCA9685_PWM_FULL_def)
  moreover have "u16_arith t (uint phaseBegin0 + uint pwmAmount) = uint phaseBegin0 + uint pwmAmount"
    using assms b by (intro u16_arith_id) auto
  ultimately show ?thesis by simp
qed

lemma getPhaseCycle_machine_unshifted:
  assumes "pwmAmount \<noteq> 0" "pwmAmount < PCA9685_PWM_FULL"
    and "to_signed (int_bits t) channel = PCA9685_ALLLED_CHANNEL
         \<or> balancer \<noteq> PCA9685_PhaseBalancer_Linear"
  shows "getPhaseCycle_machine t balancer channel pwmAmount = (0, pwmAmount)"
proof -
  have m: "pwmAmount AND PCA9685_PWM_MASK = pwmAmount"
    using assms(2) by (simp add: pca_consts mask_id)
  have n: "\<not> PCA9685_PWM_FULL \<le> pwmAmount"
    using assms(2) by simp
  show ?thesis
    using assms(1,3) n m
    by (cases balancer) (auto simp add: getPhaseCycle_machine_def Let_def)
qed

lemma getPhaseCycle_machine_Linear:
  assumes "known_c_types t"
    and "pwmAmount \<noteq> 0" "pwmAmount < PCA9685_PWM_FULL"
    and "to_signed (int_bits t) channel \<noteq> PCA9685_ALLLED_CHANNEL"
    and "getPhaseCycle_machine t PCA9685_PhaseBalancer_Linear channel pwmAmount
         = (phaseBegin, phaseEnd)"
  shows "uint pwmAmount \<le> uint phaseEnd" and "uint phaseEnd \<le> 4095"
    and "uint phaseBegin = uint phaseEnd - uint pwmAmount"
proof -
  define d where "d = to_signed (int_fast16_bits t)
      (u16_arith t (channel * u16_arith t (uint PCA9685_PWM_FULL div PCA9685_CHANNEL_COUNT)))
    - to_signed (int_fast16_bits t) (uint (drop_bit 1 pwmAmount))"
  define phaseBegin0 :: uint16_t where
    "phaseBegin0 = word_of_int (max 0 (to_signed (max (int_fast16_bits t) (int_bits t)) d))"
  have lt: "uint pwmAmount < 4096"
    using assms(3) by (simp add: PCA9685_PWM_FULL_def word_less_def)
  have small: "int_bits t = 16 \<longrightarrow> uint phaseBegin0 < 32768"
    unfolding phaseBegin0_def using assms(1) by (rule machine_phaseBegin0)
  have "phaseEnd = word_of_int (min (u16_arith t (uint PCA9685_PWM_FULL - 1))
                                    (u16_arith t (uint phaseBegin0 + uint pwmAmount)))"
    and pb: "phaseBegin = phaseEnd - pwmAmount"
    using assms(2-5)
    by (auto simp add: getPhaseCycle_machine_def Let_def phaseBegin0_def d_def
        linorder_not_le [symmetric])
  then have pe: "phaseEnd = word_of_int
      (min (uint PCA9685_PWM_FULL - 1) (uint phaseBegin0 + uint pwmAmount))"
    using machine_phaseEnd [OF assms(1) lt small] by simp
  have e: "uint phaseEnd = min 4095 (uint phaseBegin0 + uint pwmAmount)"
    unfolding pe using lt by (rule Linear_phaseEnd)
  show "uint phaseEnd \<le> 4095" using e by simp
  show le: "uint pwmAmount \<le> uint phaseEnd"
    using e lt uint_ge_0 [of phaseBegin0] by linarith
  show "uint phaseBegin = uint phaseEnd - uint pwmAmount"
    unfolding pb using le by (rule Linear_phaseBegin)
qed

text \<open>
  C10. For every channel (any integer, the ALLLED value included), every 16-bit amount and
  every balancer, the pair is an encoding the chip accepts: both values are at most 4096,
  and at most one of them is 4096, that is, has the full flag (bit 12) set. The function
  is \<open>getPhaseCycle_machine\<close>, which computes as the C types do, on the known widths of
  \<open>int\<close> and \<open>int_fast16_t\<close>. In the Linear case, whatever the first value of
  \<open>*phaseBegin\<close> is, the sum \<open>*phaseBegin + pwmAmount\<close> does not wrap: where \<open>int\<close> has 16
  bits that first value is the non-negative part of a 16-bit signed value, so at most
  32767, and the sum stays below \<open>2^16\<close>; where \<open>int\<close> has 32 bits or more the sum is below
  \<open>2^17\<close>. So the end value lies between the amount and 4095, and the begin value is the
  end value less the amount. Nothing else is used of the first assignment, so the result
  does not depend on what an overflowing signed operation in it yields.
\<close>

theorem getPhaseCycle_valid_encoding:
  assumes "known_c_types t"
  shows "case getPhaseCycle_machine t balancer channel pwmAmount of
     (phaseBegin, phaseEnd) \<Rightarrow>
       phaseBegin \<le> 4096 \<and> phaseEnd \<le> 4096 \<and>
       \<not> (phaseBegin = 4096 \<and> phaseEnd = 4096) \<and>
       \<not> (bit phaseBegin 12 \<and> bit phaseEnd 12)"
proof (cases "pwmAmount = 0 \<or> PCA9685_PWM_FULL \<le> pwmAmount")
  case True
  have b0: "\<not> bit (0 :: uint16_t) 12" by simp
  have "getPhaseCycle_machine t balancer channel pwmAmount = (0, 4096) \<or>
        getPhaseCycle_machine t balancer channel pwmAmount = (4096, 0)"
    using True by (auto simp add: getPhaseCycle_machine_def PCA9685_PWM_FULL_def)
  then show ?thesis using b0 by auto
next
  case inner: False
  then have nz: "pwmAmount \<noteq> 0" and lt: "pwmAmount < PCA9685_PWM_FULL"
    by (simp_all add: linorder_not_le)
  show ?thesis
  proof (cases "to_signed (int_bits t) channel = PCA9685_ALLLED_CHANNEL
                \<or> balancer \<noteq> PCA9685_PhaseBalancer_Linear")
    case True
    have "getPhaseCycle_machine t balancer channel pwmAmount = (0, pwmAmount)"
      using nz lt True by (rule getPhaseCycle_machine_unshifted)
    moreover have "pwmAmount \<le> 4096" "pwmAmount \<noteq> 4096"
      using lt by (simp_all add: PCA9685_PWM_FULL_def)
    ultimately show ?thesis by simp
  next
    case False
    then have ch: "to_signed (int_bits t) channel \<noteq> PCA9685_ALLLED_CHANNEL"
      and lin: "balancer = PCA9685_PhaseBalancer_Linear" by simp_all
    obtain phaseBegin phaseEnd
      where r: "getPhaseCycle_machine t PCA9685_PhaseBalancer_Linear channel pwmAmount
                = (phaseBegin, phaseEnd)"
      by (cases "getPhaseCycle_machine t PCA9685_PhaseBalancer_Linear channel pwmAmount")
    have e: "uint phaseEnd \<le> 4095"
      using assms nz lt ch r by (rule getPhaseCycle_machine_Linear(2))
    have b: "uint phaseBegin = uint phaseEnd - uint pwmAmount"
      using assms nz lt ch r by (rule getPhaseCycle_machine_Linear(3))
    have "uint phaseBegin \<le> 4095" using e b uint_ge_0 [of pwmAmount] by linarith
    with e have "phaseBegin < 4096" "phaseEnd < 4096"
      by (simp_all add: word_less_def)
    then show ?thesis using r lin by (auto simp add: not_bit12)
  qed
qed

theorem getPhaseCycle_valid_encoding_witness:
  "known_c_types avr \<and>
   getPhaseCycle_machine avr PCA9685_PhaseBalancer_Linear 255 100 = (0, 100) \<and>
   (0 :: uint16_t) \<le> 4096 \<and> (100 :: uint16_t) \<le> 4096 \<and>
   \<not> bit (0 :: uint16_t) 12 \<and> \<not> bit (100 :: uint16_t) 12"
proof -
  have k: "known_c_types avr" by (simp add: known_c_types_def avr_def)
  have r: "getPhaseCycle_machine avr PCA9685_PhaseBalancer_Linear 255 100 = (0, 100)"
    by code_simp
  show ?thesis
    using getPhaseCycle_valid_encoding [OF k, of PCA9685_PhaseBalancer_Linear 255 100]
    by (simp add: r k)
qed

subsection \<open>The two functions agree on small channel numbers\<close>

text \<open>
  On the known widths, from channel \<open>-120\<close> to channel \<open>127\<close> no operation wraps, and
  \<open>getPhaseCycle_machine\<close> is \<open>getPhaseCycle\<close>. Outside that range they differ: with
  16-bit types channel 255 has the offset \<open>255 * 256 = 65280\<close>, which is \<open>-256\<close> as an
  \<open>int_fast16_t\<close>. The last line of \<open>getPhaseCycle_machine_runs\<close> is a 16-bit \<open>int\<close> with a
  32-bit \<open>int_fast16_t\<close>, widths outside \<open>known_c_types\<close>: there the sum
  \<open>*phaseBegin + pwmAmount\<close> wraps and the pair is no encoding.
\<close>

lemma machine_offset:
  assumes "known_c_types t" "- 32768 \<le> x" "x < 32768"
  shows "to_signed (int_fast16_bits t) (u16_arith t x) = x"
proof (cases "int_bits t = 16")
  case True
  with assms(1) have f: "int_fast16_bits t = 16" by (simp add: known_c_types_def)
  have "signed_take_bit 15 (take_bit 16 x) = signed_take_bit 15 x"
    by (simp add: signed_take_bit_take_bit)
  also have "\<dots> = x" using assms(2,3) by (simp add: signed_take_bit_int_eq_self)
  finally show ?thesis by (simp add: u16_arith_def to_signed_def True f)
next
  case False
  with assms(1) have w: "32 \<le> int_bits t" and f: "16 \<le> int_fast16_bits t"
    by (simp_all add: known_c_types_def)
  from w have "16 \<le> int_bits t" by simp
  then have "to_signed (int_bits t) x = x" using assms(2,3) by (rule to_signed_small)
  moreover have "to_signed (int_fast16_bits t) x = x" using f assms(2,3) by (rule to_signed_small)
  moreover have "\<not> int_bits t \<le> 16" using w by simp
  ultimately show ?thesis by (simp add: u16_arith_def)
qed

lemma getPhaseCycle_machine_in_range:
  assumes "known_c_types t" "- 120 \<le> channel" "channel \<le> 127"
  shows "getPhaseCycle_machine t balancer channel pwmAmount
         = getPhaseCycle balancer channel pwmAmount"
proof (cases "pwmAmount = 0 \<or> PCA9685_PWM_FULL \<le> pwmAmount")
  case True
  then show ?thesis by (auto simp add: getPhaseCycle_machine_def getPhaseCycle_def)
next
  case False
  then have nz: "pwmAmount \<noteq> 0" and lt: "pwmAmount < PCA9685_PWM_FULL"
    by (simp_all add: linorder_not_le)
  have wi: "16 \<le> int_bits t" and wf: "16 \<le> int_fast16_bits t"
    using assms(1) by (auto simp add: known_c_types_def)
  have ch: "to_signed (int_bits t) channel = channel"
    using wi assms(2,3) by (intro to_signed_small) simp_all
  show ?thesis
  proof (cases "channel = PCA9685_ALLLED_CHANNEL \<or> balancer \<noteq> PCA9685_PhaseBalancer_Linear")
    case True
    then have "to_signed (int_bits t) channel = PCA9685_ALLLED_CHANNEL
               \<or> balancer \<noteq> PCA9685_PhaseBalancer_Linear"
      by (simp add: ch)
    with nz lt have "getPhaseCycle_machine t balancer channel pwmAmount = (0, pwmAmount)"
      by (rule getPhaseCycle_machine_unshifted)
    moreover have "getPhaseCycle balancer channel pwmAmount = (0, pwmAmount)"
      using nz lt True by (rule getPhaseCycle_unshifted)
    ultimately show ?thesis by simp
  next
    case False
    then have na: "channel \<noteq> PCA9685_ALLLED_CHANNEL"
      and lin: "balancer = PCA9685_PhaseBalancer_Linear" by simp_all
    define half where "half = uint (drop_bit (Suc 0) pwmAmount)"
    have u: "uint pwmAmount < 4096"
      using lt by (simp add: PCA9685_PWM_FULL_def word_less_def)
    have "uint (drop_bit (Suc 0) pwmAmount) = uint pwmAmount div 2"
      by (simp add: drop_bit_eq_div uint_div_distrib)
    then have h: "0 \<le> half" "half < 2048" using u by (simp_all add: half_def)
    have steps: "u16_arith t (uint PCA9685_PWM_FULL div PCA9685_CHANNEL_COUNT) = PCA9685_PBLIN_STEPS"
      unfolding PCA9685_PBLIN_STEPS_def using assms(1)
      by (intro u16_arith_id) (simp_all add: pca_consts)
    have p: "- 30720 \<le> channel * PCA9685_PBLIN_STEPS" "channel * PCA9685_PBLIN_STEPS \<le> 32512"
      using assms(2,3) by (simp_all add: pca_consts)
    have offset: "to_signed (int_fast16_bits t) (u16_arith t (channel * PCA9685_PBLIN_STEPS))
                  = channel * PCA9685_PBLIN_STEPS"
      using assms(1) p by (intro machine_offset) linarith+
    have half': "to_signed (int_fast16_bits t) half = half"
      using wf h by (intro to_signed_small) linarith+
    have "16 \<le> max (int_fast16_bits t) (int_bits t)" using wi by simp
    then have difference: "to_signed (max (int_fast16_bits t) (int_bits t))
        (channel * PCA9685_PBLIN_STEPS - half) = channel * PCA9685_PBLIN_STEPS - half"
      using p h by (intro to_signed_small) linarith+
    define phaseBegin0 :: uint16_t where
      "phaseBegin0 = word_of_int (max 0 (channel * PCA9685_PBLIN_STEPS - half))"
    have "0 \<le> max 0 (channel * PCA9685_PBLIN_STEPS - half)"
      "max 0 (channel * PCA9685_PBLIN_STEPS - half) < 32768"
      using p h by linarith+
    then have "uint phaseBegin0 < 32768"
      by (simp add: phaseBegin0_def uint_word16_id)
    then have small: "int_bits t = 16 \<longrightarrow> uint phaseBegin0 < 32768" by simp
    have pe: "(word_of_int (min (u16_arith t (uint PCA9685_PWM_FULL - 1))
                          (u16_arith t (uint phaseBegin0 + uint pwmAmount))) :: uint16_t)
         = word_of_int (min (uint PCA9685_PWM_FULL - 1) (uint phaseBegin0 + uint pwmAmount))"
      using assms(1) u small by (rule machine_phaseEnd)
    have n: "\<not> PCA9685_PWM_FULL \<le> pwmAmount" using lt by simp
    show ?thesis
      unfolding getPhaseCycle_machine_def getPhaseCycle_def lin
      using nz n na pe [unfolded phaseBegin0_def half_def]
      by (simp add: Let_def ch steps offset half' [unfolded half_def]
          difference [unfolded half_def])
  qed
qed

lemma getPhaseCycle_machine_runs:
  "getPhaseCycle_machine avr PCA9685_PhaseBalancer_Linear 255 100 = (0, 100)"
  "getPhaseCycle_machine lp64 PCA9685_PhaseBalancer_Linear 8388608 100 = (0, 100)"
  "getPhaseCycle_machine avr PCA9685_PhaseBalancer_Linear 15 3000 = (1095, 4095)"
  "getPhaseCycle_machine \<lparr>int_bits = 16, int_fast16_bits = 32\<rparr>
     PCA9685_PhaseBalancer_Linear 255 600 = (64980, 44)"
  by code_simp+

section \<open>Multi-channel writes\<close>

declare setChannelsPWM_inner.simps [simp del]
declare getChannelPWM_drain.simps [simp del]

lemma writeChannelPWM_bus:
  "writeChannelPWM phaseBegin phaseEnd dev =
     dev\<lparr>bus := bus dev @ [Write (lowByte phaseBegin), Write (highByte phaseBegin),
                              Write (lowByte phaseEnd), Write (highByte phaseEnd)]\<rparr>"
  by (simp add: writeChannelPWM_def i2cWire_write_def)

lemma setChannelsPWM_inner_run:
  "setChannelsPWM_inner amounts (int c) s =
     s\<lparr>device := (device s)\<lparr>bus := bus (device s) @
            concat (map (\<lambda>x. channel_bytes (phaseBalancer (device s)) (begChannel s + int x)
                                 (amounts (pwmAmounts s + x))) [0 ..< c])\<rparr>,
       begChannel := begChannel s + int c,
       pwmAmounts := pwmAmounts s + c,
       numChannels := numChannels s - int c\<rparr>"
proof (induction c arbitrary: s)
  case 0
  show ?case by (subst setChannelsPWM_inner.simps) simp
next
  case (Suc c)
  obtain phaseBegin phaseEnd where g:
    "getPhaseCycle (phaseBalancer (device s)) (begChannel s) (amounts (pwmAmounts s)) = (phaseBegin, phaseEnd)"
    by (cases "getPhaseCycle (phaseBalancer (device s)) (begChannel s) (amounts (pwmAmounts s))")
  have cb: "channel_bytes (phaseBalancer (device s)) (begChannel s) (amounts (pwmAmounts s))
      = [Write (lowByte phaseBegin), Write (highByte phaseBegin),
         Write (lowByte phaseEnd), Write (highByte phaseEnd)]"
    by (simp add: channel_bytes_def g)
  have m: "map (\<lambda>x. channel_bytes (phaseBalancer (device s)) (begChannel s + int x)
                                 (amounts (pwmAmounts s + x))) [0 ..< Suc c]
       = channel_bytes (phaseBalancer (device s)) (begChannel s) (amounts (pwmAmounts s))
         # map (\<lambda>x. channel_bytes (phaseBalancer (device s)) (begChannel s + 1 + int x)
                                 (amounts (pwmAmounts s + 1 + x))) [0 ..< c]"
    by (simp add: map_upt_Suc add.assoc del: upt_Suc)
  have "setChannelsPWM_inner amounts (int (Suc c)) s =
        setChannelsPWM_inner amounts (int c)
          (s\<lparr>device := writeChannelPWM phaseBegin phaseEnd (device s),
             begChannel := begChannel s + 1,
             pwmAmounts := pwmAmounts s + 1,
             numChannels := numChannels s - 1\<rparr>)"
    by (subst setChannelsPWM_inner.simps) (simp add: g)
  also have "\<dots> = s\<lparr>device := (device s)\<lparr>bus := bus (device s) @
            concat (map (\<lambda>x. channel_bytes (phaseBalancer (device s)) (begChannel s + int x)
                                 (amounts (pwmAmounts s + x))) [0 ..< Suc c])\<rparr>,
       begChannel := begChannel s + int (Suc c),
       pwmAmounts := pwmAmounts s + Suc c,
       numChannels := numChannels s - int (Suc c)\<rparr>"
    unfolding Suc.IH m by (simp add: writeChannelPWM_bus cb)
  finally show ?case .
qed

lemma c_div_nonneg: "0 \<le> a \<Longrightarrow> 0 < b \<Longrightarrow> c_div a b = a div b"
  by (simp add: c_div_def)

text \<open>One pass of the outer loop, from a state with \<open>r > 0\<close> channels left.\<close>

lemma setChannelsPWM_chunk_run:
  fixes amounts :: "nat \<Rightarrow> uint16_t"
  assumes L: "5 \<le> bufferLength" and r: "numChannels s = int r"
  defines "k \<equiv> nat ((bufferLength - 1) div 4)"
  defines "c \<equiv> min r k"
  defines "calls \<equiv> bus (device s) @
      [BeginTransmission (i2cAddr (device s)),
       Write (if begChannel s \<noteq> PCA9685_ALLLED_CHANNEL
              then word_of_int (uint PCA9685_LED0_REG + begChannel s * 4) else PCA9685_ALLLED_REG)]
      @ concat (map (\<lambda>x. channel_bytes (phaseBalancer (device s)) (begChannel s + int x)
                                 (amounts (pwmAmounts s + x))) [0 ..< c])
      @ [EndTransmission]"
  shows "setChannelsPWM_chunk wire bufferLength amounts s =
     s\<lparr>device := (device s)\<lparr>lastI2CError := endTransmission wire calls, bus := calls\<rparr>,
       begChannel := begChannel s + int c,
       pwmAmounts := pwmAmounts s + c,
       numChannels := numChannels s - int c\<rparr>"
proof -
  have kk: "c_div (bufferLength - 1) 4 = int k"
    using L by (simp add: c_div_nonneg k_def)
  have mc: "min (numChannels s) (c_div (bufferLength - 1) 4) = int c"
    by (simp add: kk r c_def)
  show ?thesis
    unfolding setChannelsPWM_chunk_def Let_def
    by (simp add: mc setChannelsPWM_inner_run writeChannelBegin_def writeChannelEnd_def
        i2cWire_write_def i2cWire_beginTransmission_def i2cWire_endTransmission_def
        Let_def calls_def)
qed

lemma bus_after_Suc:
  "bus_after dev k beg n amounts (Suc j) =
     bus_after dev k beg n amounts j @ chunk_transaction dev k beg n amounts j"
  by (simp add: bus_after_def)

lemma after_chunks_step:
  fixes amounts :: "nat \<Rightarrow> uint16_t"
  assumes L: "5 \<le> bufferLength" and beg: "0 \<le> beg" and more: "j * k < n"
    and k: "k = nat ((bufferLength - 1) div 4)"
  shows "setChannelsPWM_chunk wire bufferLength amounts (after_chunks dev k beg n amounts j e) =
         after_chunks dev k beg n amounts (Suc j)
           (endTransmission wire (bus_after dev k beg n amounts (Suc j)))"
proof -
  define s where "s = after_chunks dev k beg n amounts j e"
  define c where "c = min (n - j * k) k"
  have m: "min n (j * k) = j * k" using more by simp
  have m': "min n (Suc j * k) = j * k + c" using more by (simp add: c_def)
  have left: "n - Suc j * k = n - j * k - c" by (simp add: c_def)
  have cle: "c \<le> n - j * k" by (simp add: c_def)
  have cs: "chunk_size k n j = c" by (simp add: chunk_size_def c_def min.commute)
  have fields: "numChannels s = int (n - j * k)" "begChannel s = beg + int (j * k)"
    "pwmAmounts s = j * k" "bus (device s) = bus_after dev k beg n amounts j"
    "i2cAddr (device s) = i2cAddr dev" "phaseBalancer (device s) = phaseBalancer dev"
    by (simp_all add: s_def after_chunks_def m)
  have "0 \<le> int (j * k)" by (rule of_nat_0_le_iff)
  then have "0 \<le> begChannel s" unfolding fields(2) using beg by linarith
  then have ch: "begChannel s \<noteq> PCA9685_ALLLED_CHANNEL"
    by (simp add: PCA9685_ALLLED_CHANNEL_def)
  have calls: "bus (device s) @
      [BeginTransmission (i2cAddr (device s)),
       Write (if begChannel s \<noteq> PCA9685_ALLLED_CHANNEL
              then word_of_int (uint PCA9685_LED0_REG + begChannel s * 4) else PCA9685_ALLLED_REG)]
      @ concat (map (\<lambda>x. channel_bytes (phaseBalancer (device s)) (begChannel s + int x)
                                 (amounts (pwmAmounts s + x))) [0 ..< c])
      @ [EndTransmission] = bus_after dev k beg n amounts (Suc j)"
    using ch by (simp add: fields bus_after_Suc chunk_transaction_def chunk_payload_def cs add.assoc)
  have "setChannelsPWM_chunk wire bufferLength amounts s =
     s\<lparr>device := (device s)\<lparr>lastI2CError := endTransmission wire (bus_after dev k beg n amounts (Suc j)),
                               bus := bus_after dev k beg n amounts (Suc j)\<rparr>,
       begChannel := begChannel s + int c,
       pwmAmounts := pwmAmounts s + c,
       numChannels := numChannels s - int c\<rparr>"
    using setChannelsPWM_chunk_run [OF L fields(1), of wire amounts]
    unfolding k [symmetric] c_def [symmetric] calls .
  also have "\<dots> = after_chunks dev k beg n amounts (Suc j)
           (endTransmission wire (bus_after dev k beg n amounts (Suc j)))"
    using cle by (simp add: s_def after_chunks_def m m' left del: mult_Suc)
  finally show ?thesis unfolding s_def .
qed

lemma chunk_count_less: "0 < k \<Longrightarrow> j < chunk_count k n \<longleftrightarrow> j * k < n"
proof -
  assume k: "0 < k"
  have "j < chunk_count k n \<longleftrightarrow> Suc j \<le> (n + k - 1) div k"
    by (simp add: chunk_count_def Suc_le_eq)
  also have "\<dots> \<longleftrightarrow> Suc j * k \<le> n + k - 1"
    using k by (simp add: less_eq_div_iff_mult_less_eq)
  also have "\<dots> \<longleftrightarrow> j * k < n"
    using k by auto
  finally show ?thesis .
qed

lemma after_chunks_0:
  "after_chunks dev k beg n amounts 0 (lastI2CError dev) =
     \<lparr>device = dev, begChannel = beg, numChannels = int n, pwmAmounts = 0\<rparr>"
  by (simp add: after_chunks_def bus_after_def)

lemma setChannelsPWM_loop_continue:
  assumes "numChannels s > 0"
    and "lastI2CError (device (setChannelsPWM_chunk wire bufferLength amounts s)) = 0"
  shows "setChannelsPWM_loop wire bufferLength amounts s =
         setChannelsPWM_loop wire bufferLength amounts (setChannelsPWM_chunk wire bufferLength amounts s)"
  using assms by (subst setChannelsPWM_loop.simps) (simp add: Let_def)

lemma setChannelsPWM_loop_stop:
  assumes "numChannels s > 0"
    and "lastI2CError (device (setChannelsPWM_chunk wire bufferLength amounts s)) \<noteq> 0"
  shows "setChannelsPWM_loop wire bufferLength amounts s =
         Some (device (setChannelsPWM_chunk wire bufferLength amounts s))"
  using assms by (subst setChannelsPWM_loop.simps) (simp add: Let_def)

lemma setChannelsPWM_loop_done:
  assumes "\<not> numChannels s > 0"
  shows "setChannelsPWM_loop wire bufferLength amounts s = Some (device s)"
  using assms by (subst setChannelsPWM_loop.simps) simp

lemma after_chunks_device:
  "lastI2CError (device (after_chunks dev k beg n amounts j e)) = e"
  "bus (device (after_chunks dev k beg n amounts j e)) = bus_after dev k beg n amounts j"
  by (simp_all add: after_chunks_def)

lemma setChannelsPWM_loop_progress:
  fixes amounts :: "nat \<Rightarrow> uint16_t"
  assumes L: "5 \<le> bufferLength" and beg: "0 \<le> beg"
    and k: "k = nat ((bufferLength - 1) div 4)"
    and j: "j \<le> chunk_count k n"
    and ok: "\<forall>i<j. endTransmission wire (bus_after dev k beg n amounts (Suc i)) = 0"
  shows "setChannelsPWM_loop wire bufferLength amounts (after_chunks dev k beg n amounts 0 e) =
         setChannelsPWM_loop wire bufferLength amounts
           (after_chunks dev k beg n amounts j (if j = 0 then e else 0))"
  using j ok
proof (induction j)
  case 0
  show ?case by simp
next
  case (Suc j)
  have kpos: "0 < k" using L k by simp
  have more: "j * k < n"
    using Suc.prems(1) kpos by (simp add: chunk_count_less [symmetric])
  have close: "endTransmission wire (bus_after dev k beg n amounts (Suc j)) = 0"
    using Suc.prems(2) by simp
  let ?s = "after_chunks dev k beg n amounts j (if j = 0 then e else 0)"
  have step: "setChannelsPWM_chunk wire bufferLength amounts ?s =
      after_chunks dev k beg n amounts (Suc j) 0"
    using after_chunks_step [OF L beg more k, of wire amounts dev] close by simp
  have nc: "numChannels ?s = int (n - j * k)" by (simp add: after_chunks_def)
  have left: "numChannels ?s > 0"
    unfolding nc using more by (simp only: of_nat_0_less_iff zero_less_diff)
  have "setChannelsPWM_loop wire bufferLength amounts (after_chunks dev k beg n amounts 0 e) =
        setChannelsPWM_loop wire bufferLength amounts ?s"
    using Suc.IH Suc.prems by simp
  also have "\<dots> = setChannelsPWM_loop wire bufferLength amounts
      (after_chunks dev k beg n amounts (Suc j) 0)"
  proof -
    have "lastI2CError (device (setChannelsPWM_chunk wire bufferLength amounts ?s)) = 0"
      by (simp add: step after_chunks_device)
    from setChannelsPWM_loop_continue [OF left this] show ?thesis
      by (simp only: step)
  qed
  finally show ?case by simp
qed

lemma setChannelsPWM_loop_success:
  fixes amounts :: "nat \<Rightarrow> uint16_t"
  assumes L: "5 \<le> bufferLength" and beg: "0 \<le> beg"
    and k: "k = nat ((bufferLength - 1) div 4)"
    and ok: "\<forall>i<chunk_count k n. endTransmission wire (bus_after dev k beg n amounts (Suc i)) = 0"
  shows "\<exists>dev'. setChannelsPWM_loop wire bufferLength amounts
            \<lparr>device = dev, begChannel = beg, numChannels = int n, pwmAmounts = 0\<rparr> = Some dev'
          \<and> bus dev' = bus_after dev k beg n amounts (chunk_count k n)"
proof -
  have kpos: "0 < k" using L k by simp
  let ?s = "after_chunks dev k beg n amounts (chunk_count k n)
              (if chunk_count k n = 0 then lastI2CError dev else 0)"
  have "\<not> chunk_count k n * k < n"
    using chunk_count_less [OF kpos, of "chunk_count k n" n] by simp
  then have "n - chunk_count k n * k = 0" by simp
  moreover have "numChannels ?s = int (n - chunk_count k n * k)" by (simp add: after_chunks_def)
  ultimately have fin: "\<not> numChannels ?s > 0" by (simp only: of_nat_0 less_irrefl not_False_eq_True)
  have "setChannelsPWM_loop wire bufferLength amounts
            \<lparr>device = dev, begChannel = beg, numChannels = int n, pwmAmounts = 0\<rparr>
        = setChannelsPWM_loop wire bufferLength amounts ?s"
    using setChannelsPWM_loop_progress [OF L beg k order_refl ok, of "lastI2CError dev"]
    by (simp only: after_chunks_0)
  also have "\<dots> = Some (device ?s)"
    using fin by (rule setChannelsPWM_loop_done)
  finally show ?thesis by (simp add: after_chunks_device)
qed

lemma setChannelsPWM_loop_failure:
  fixes amounts :: "nat \<Rightarrow> uint16_t"
  assumes L: "5 \<le> bufferLength" and beg: "0 \<le> beg"
    and k: "k = nat ((bufferLength - 1) div 4)"
    and j: "j < chunk_count k n"
    and ok: "\<forall>i<j. endTransmission wire (bus_after dev k beg n amounts (Suc i)) = 0"
    and fail: "endTransmission wire (bus_after dev k beg n amounts (Suc j)) \<noteq> 0"
  shows "\<exists>dev'. setChannelsPWM_loop wire bufferLength amounts
            \<lparr>device = dev, begChannel = beg, numChannels = int n, pwmAmounts = 0\<rparr> = Some dev'
          \<and> bus dev' = bus_after dev k beg n amounts (Suc j)
          \<and> lastI2CError dev' = endTransmission wire (bus_after dev k beg n amounts (Suc j))"
proof -
  have kpos: "0 < k" using L k by simp
  have more: "j * k < n" using j kpos by (simp add: chunk_count_less)
  let ?s = "after_chunks dev k beg n amounts j (if j = 0 then lastI2CError dev else 0)"
  let ?e = "endTransmission wire (bus_after dev k beg n amounts (Suc j))"
  have step: "setChannelsPWM_chunk wire bufferLength amounts ?s =
      after_chunks dev k beg n amounts (Suc j) ?e"
    using after_chunks_step [OF L beg more k, of wire amounts dev] by simp
  have nc: "numChannels ?s = int (n - j * k)" by (simp add: after_chunks_def)
  have left: "numChannels ?s > 0"
    unfolding nc using more by (simp only: of_nat_0_less_iff zero_less_diff)
  have "setChannelsPWM_loop wire bufferLength amounts
            \<lparr>device = dev, begChannel = beg, numChannels = int n, pwmAmounts = 0\<rparr>
        = setChannelsPWM_loop wire bufferLength amounts ?s"
    using setChannelsPWM_loop_progress [OF L beg k less_imp_le [OF j] ok, of "lastI2CError dev"]
    by (simp only: after_chunks_0)
  also have "\<dots> = Some (device (after_chunks dev k beg n amounts (Suc j) ?e))"
  proof -
    have "lastI2CError (device (setChannelsPWM_chunk wire bufferLength amounts ?s)) \<noteq> 0"
      using fail by (simp add: step after_chunks_device)
    from setChannelsPWM_loop_stop [OF left this] show ?thesis
      by (simp only: step)
  qed
  finally show ?thesis by (simp add: after_chunks_device)
qed

lemma setChannelsPWM_valid:
  assumes "0 \<le> beg" "beg \<le> 15" "0 \<le> count"
  shows "setChannelsPWM wire bufferLength beg count amounts dev =
         setChannelsPWM_loop wire bufferLength amounts
           \<lparr>device = dev, begChannel = beg,
            numChannels = int (nat (min count (16 - beg))), pwmAmounts = 0\<rparr>"
proof -
  have "(if beg + count > 16 then count - ((beg + count) - 16) else count) = min count (16 - beg)"
    by auto
  moreover have "0 \<le> min count (16 - beg)" using assms by simp
  ultimately show ?thesis
    using assms by (simp add: setChannelsPWM_def Let_def)
qed

lemma length_channel_bytes: "length (channel_bytes balancer channel amount) = 4"
  by (cases "getPhaseCycle balancer channel amount") (simp add: channel_bytes_def)

lemma length_chunk_payload:
  "length (chunk_payload balancer k beg n amounts m) = 4 * chunk_size k n m"
  by (simp add: chunk_payload_def length_concat comp_def length_channel_bytes sum_list_triv)

lemma chunk_size_bounds:
  assumes L: "5 \<le> bufferLength" and k: "k = nat ((bufferLength - 1) div 4)"
    and m: "m < chunk_count k n"
  shows "0 < chunk_size k n m" "chunk_size k n m \<le> k" "1 + 4 * int (chunk_size k n m) \<le> bufferLength"
proof -
  have kpos: "0 < k" using L k by simp
  have "m * k < n" using m kpos by (simp add: chunk_count_less)
  then show "0 < chunk_size k n m" using kpos by (simp add: chunk_size_def)
  show le: "chunk_size k n m \<le> k" by (simp add: chunk_size_def)
  have "4 * ((bufferLength - 1) div 4) \<le> bufferLength - 1" by presburger
  moreover have "int k = (bufferLength - 1) div 4" using L k by simp
  ultimately have "4 * int k \<le> bufferLength - 1" by simp
  with le show "1 + 4 * int (chunk_size k n m) \<le> bufferLength" by linarith
qed

lemma chunk_payload_concat:
  assumes kpos: "0 < k" and j: "j \<le> chunk_count k n"
  shows "concat (map (chunk_payload balancer k beg n amounts) [0 ..< j]) =
         concat (map (\<lambda>x. channel_bytes balancer (beg + int x) (amounts x)) [0 ..< min n (j * k)])"
  using j
proof (induction j)
  case 0
  show ?case by simp
next
  case (Suc j)
  have more: "j * k < n" using Suc.prems kpos by (simp add: chunk_count_less [symmetric])
  define c where "c = chunk_size k n j"
  have m: "min n (j * k) = j * k" using more by simp
  have m': "min n (Suc j * k) = j * k + c" using more by (simp add: c_def chunk_size_def)
  have split: "[0 ..< j * k + c] = [0 ..< j * k] @ [j * k ..< j * k + c]"
    by (rule upt_add_eq_append) simp
  have "[j * k ..< j * k + c] = map (\<lambda>x. j * k + x) [0 ..< c]"
    using map_add_upt [of "j * k" c] by (simp add: add.commute)
  then have shift: "map (\<lambda>x. channel_bytes balancer (beg + int x) (amounts x)) [j * k ..< j * k + c]
      = map (\<lambda>x. channel_bytes balancer (beg + int (j * k + x)) (amounts (j * k + x))) [0 ..< c]"
    by (simp only: map_map comp_def)
  have "concat (map (chunk_payload balancer k beg n amounts) [0 ..< Suc j]) =
        concat (map (chunk_payload balancer k beg n amounts) [0 ..< j])
        @ chunk_payload balancer k beg n amounts j"
    by simp
  also have "\<dots> = concat (map (\<lambda>x. channel_bytes balancer (beg + int x) (amounts x)) [0 ..< j * k])
        @ concat (map (\<lambda>x. channel_bytes balancer (beg + int x) (amounts x)) [j * k ..< j * k + c])"
  proof -
    have "j \<le> chunk_count k n" using Suc.prems by simp
    then have ih: "concat (map (chunk_payload balancer k beg n amounts) [0 ..< j]) =
        concat (map (\<lambda>x. channel_bytes balancer (beg + int x) (amounts x)) [0 ..< j * k])"
      using Suc.IH by (simp only: m)
    have pj: "chunk_payload balancer k beg n amounts j =
        concat (map (\<lambda>x. channel_bytes balancer (beg + int x) (amounts x)) [j * k ..< j * k + c])"
      unfolding chunk_payload_def c_def [symmetric] shift ..
    show ?thesis by (simp only: ih pj)
  qed
  also have "\<dots> = concat (map (\<lambda>x. channel_bytes balancer (beg + int x) (amounts x))
                               [0 ..< min n (Suc j * k)])"
    unfolding m' split by simp
  finally show ?case .
qed

text \<open>
  C5. A multi-channel write over a transport with a buffer of \<open>bufferLength\<close> bytes, whose
  transactions all close without error, returns, and the calls it makes are the
  transactions laid out above with \<open>k = (bufferLength - 1) div 4\<close>: transaction \<open>m\<close> is
  opened on its own, addresses the register of channel \<open>beg + m * k\<close>, carries the
  bytes of at least one and at most \<open>k\<close> channels (with the register address at most
  \<open>bufferLength\<close> bytes) and is closed on its own.
\<close>

theorem setChannelsPWM_chunked:
  fixes amounts :: "nat \<Rightarrow> uint16_t"
  assumes "5 \<le> bufferLength" and "0 \<le> beg" and "beg \<le> 15" and "0 \<le> count"
    and "k = nat ((bufferLength - 1) div 4)"
    and "n = nat (min count (16 - beg))"
    and "\<forall>i<chunk_count k n. endTransmission wire (bus_after dev k beg n amounts (Suc i)) = 0"
  shows "(\<exists>dev'. setChannelsPWM wire bufferLength beg count amounts dev = Some dev' \<and>
            bus dev' = bus dev @ concat (map (chunk_transaction dev k beg n amounts)
                                              [0 ..< chunk_count k n])) \<and>
         (\<forall>m<chunk_count k n.
            0 < chunk_size k n m \<and> chunk_size k n m \<le> k \<and>
            1 + 4 * int (chunk_size k n m) \<le> bufferLength \<and>
            length (chunk_payload (phaseBalancer dev) k beg n amounts m) = 4 * chunk_size k n m)"
proof
  show "\<exists>dev'. setChannelsPWM wire bufferLength beg count amounts dev = Some dev' \<and>
            bus dev' = bus dev @ concat (map (chunk_transaction dev k beg n amounts)
                                              [0 ..< chunk_count k n])"
  proof -
    obtain dev' where "setChannelsPWM_loop wire bufferLength amounts
            \<lparr>device = dev, begChannel = beg, numChannels = int n, pwmAmounts = 0\<rparr> = Some dev'"
      and "bus dev' = bus_after dev k beg n amounts (chunk_count k n)"
      using setChannelsPWM_loop_success [OF assms(1,2,5,7)] by blast
    then have "setChannelsPWM wire bufferLength beg count amounts dev = Some dev' \<and>
            bus dev' = bus dev @ concat (map (chunk_transaction dev k beg n amounts)
                                              [0 ..< chunk_count k n])"
      by (simp add: setChannelsPWM_valid [OF assms(2,3,4)] assms(6) bus_after_def)
    then show ?thesis by blast
  qed
  show "\<forall>m<chunk_count k n.
            0 < chunk_size k n m \<and> chunk_size k n m \<le> k \<and>
            1 + 4 * int (chunk_size k n m) \<le> bufferLength \<and>
            length (chunk_payload (phaseBalancer dev) k beg n amounts m) = 4 * chunk_size k n m"
    using chunk_size_bounds [OF assms(1,5)] by (simp add: length_chunk_payload)
qed

theorem setChannelsPWM_chunked_witness:
  "(\<exists>dev'. setChannelsPWM wire_ok 32 0 16 (\<lambda>i. 2048) dev0 = Some dev' \<and>
      bus dev' = bus dev0 @ concat (map (chunk_transaction dev0 7 0 16 (\<lambda>i. 2048)) [0 ..< 3])) \<and>
   chunk_count 7 16 = 3 \<and>
   chunk_size 7 16 0 = 7 \<and> chunk_size 7 16 1 = 7 \<and> chunk_size 7 16 2 = 2 \<and>
   chunk_transaction dev0 7 0 16 (\<lambda>i. 2048) 2 =
     [BeginTransmission 0x40, Write 0x3E,
      Write 0xFF, Write 0x07, Write 0xFF, Write 0x0F,
      Write 0xFF, Write 0x07, Write 0xFF, Write 0x0F, EndTransmission]"
proof -
  have t: "chunk_transaction dev0 7 0 16 (\<lambda>i. 2048) 2 =
     [BeginTransmission 0x40, Write 0x3E,
      Write 0xFF, Write 0x07, Write 0xFF, Write 0x0F,
      Write 0xFF, Write 0x07, Write 0xFF, Write 0x0F, EndTransmission]"
    by code_simp
  have c: "chunk_count 7 16 = 3" by (simp add: chunk_count_def)
  have ok: "\<forall>i<chunk_count 7 16.
      endTransmission wire_ok (bus_after dev0 7 0 16 (\<lambda>i. 2048) (Suc i)) = 0"
    by (simp add: wire_ok_def)
  have "5 \<le> (32 :: int)" "0 \<le> (0 :: int)" "(0 :: int) \<le> 15" "0 \<le> (16 :: int)"
    "(7 :: nat) = nat ((32 - 1) div 4)" "(16 :: nat) = nat (min 16 (16 - 0))"
    by simp_all
  from setChannelsPWM_chunked [OF this ok] show ?thesis
    by (simp add: c t chunk_size_def)
qed

text \<open>
  C6. When the close of transaction \<open>j\<close> reports an error, all closes before it having
  succeeded, the call returns at once: the calls made are exactly the transactions
  \<open>0, \<dots>, j\<close>, so nothing is sent after the failed close and nothing is sent to undo
  the transactions before it, and the last error is the one reported.
\<close>

theorem setChannelsPWM_fail_fast:
  fixes amounts :: "nat \<Rightarrow> uint16_t"
  assumes "5 \<le> bufferLength" and "0 \<le> beg" and "beg \<le> 15" and "0 \<le> count"
    and "k = nat ((bufferLength - 1) div 4)"
    and "n = nat (min count (16 - beg))"
    and "j < chunk_count k n"
    and "\<forall>i<j. endTransmission wire (bus_after dev k beg n amounts (Suc i)) = 0"
    and "endTransmission wire (bus_after dev k beg n amounts (Suc j)) \<noteq> 0"
  shows "\<exists>dev'. setChannelsPWM wire bufferLength beg count amounts dev = Some dev' \<and>
           bus dev' = bus dev @ concat (map (chunk_transaction dev k beg n amounts) [0 ..< Suc j]) \<and>
           lastI2CError dev' = endTransmission wire (bus_after dev k beg n amounts (Suc j)) \<and>
           lastI2CError dev' \<noteq> 0"
proof -
  obtain dev' where "setChannelsPWM_loop wire bufferLength amounts
            \<lparr>device = dev, begChannel = beg, numChannels = int n, pwmAmounts = 0\<rparr> = Some dev'"
      and "bus dev' = bus_after dev k beg n amounts (Suc j)"
      and "lastI2CError dev' = endTransmission wire (bus_after dev k beg n amounts (Suc j))"
    using setChannelsPWM_loop_failure [OF assms(1,2,5,7,8,9)] by blast
  then have "setChannelsPWM wire bufferLength beg count amounts dev = Some dev' \<and>
           bus dev' = bus dev @ concat (map (chunk_transaction dev k beg n amounts) [0 ..< Suc j]) \<and>
           lastI2CError dev' = endTransmission wire (bus_after dev k beg n amounts (Suc j)) \<and>
           lastI2CError dev' \<noteq> 0"
    using assms(9) by (simp add: setChannelsPWM_valid [OF assms(2,3,4)] assms(6) bus_after_def)
  then show ?thesis by blast
qed

theorem setChannelsPWM_fail_fast_witness:
  "\<exists>dev'. setChannelsPWM (wire_nack_after 31) 32 0 16 (\<lambda>i. 2048) dev0 = Some dev' \<and>
      bus dev' = bus dev0 @ concat (map (chunk_transaction dev0 7 0 16 (\<lambda>i. 2048)) [0 ..< 2]) \<and>
      lastI2CError dev' = 2"
proof -
  have j: "1 < chunk_count 7 16" by (simp add: chunk_count_def)
  have "endTransmission (wire_nack_after 31) (bus_after dev0 7 0 16 (\<lambda>i. 2048) (Suc 0)) = 0"
    by code_simp
  then have ok: "\<forall>i<1. endTransmission (wire_nack_after 31) (bus_after dev0 7 0 16 (\<lambda>i. 2048) (Suc i)) = 0"
    by simp
  have e: "endTransmission (wire_nack_after 31) (bus_after dev0 7 0 16 (\<lambda>i. 2048) (Suc 1)) = 2"
    by code_simp
  then have fail: "endTransmission (wire_nack_after 31) (bus_after dev0 7 0 16 (\<lambda>i. 2048) (Suc 1)) \<noteq> 0"
    by simp
  have "5 \<le> (32 :: int)" "0 \<le> (0 :: int)" "(0 :: int) \<le> 15" "0 \<le> (16 :: int)"
    "(7 :: nat) = nat ((32 - 1) div 4)" "(16 :: nat) = nat (min 16 (16 - 0))"
    by simp_all
  from setChannelsPWM_fail_fast [OF this j ok fail] e show ?thesis
    by (auto simp add: numeral_2_eq_2)
qed

text \<open>
  C7. The count is clipped to the channels from \<open>beg\<close> up to 15: with an invalid begin
  channel or a count of 0 or less the call returns the device as it was, no call made on
  the bus; otherwise the call equals the call with the count \<open>min count (16 - beg)\<close>,
  and where the transactions close without error the register bytes on the bus are those
  of the channels \<open>beg, \<dots>, beg + n - 1\<close> for \<open>n = min count (16 - beg)\<close>. So a count of
  20 from channel 0 writes 16 channels and a count of 10 from channel 10 writes 6.
\<close>

theorem setChannelsPWM_clips:
  fixes amounts :: "nat \<Rightarrow> uint16_t"
  shows "(beg < 0 \<or> 15 < beg \<or> count \<le> 0 \<longrightarrow>
            setChannelsPWM wire bufferLength beg count amounts dev = Some dev) \<and>
         (0 \<le> beg \<and> beg \<le> 15 \<and> 0 \<le> count \<longrightarrow>
            setChannelsPWM wire bufferLength beg count amounts dev =
            setChannelsPWM wire bufferLength beg (min count (16 - beg)) amounts dev) \<and>
         (0 \<le> beg \<and> beg \<le> 15 \<and> 0 \<le> count \<and> 5 \<le> bufferLength \<and>
          k = nat ((bufferLength - 1) div 4) \<and> n = nat (min count (16 - beg)) \<and>
          (\<forall>i<chunk_count k n. endTransmission wire (bus_after dev k beg n amounts (Suc i)) = 0) \<longrightarrow>
            (\<exists>dev'. setChannelsPWM wire bufferLength beg count amounts dev = Some dev' \<and>
               bus dev' = bus dev @ concat (map (chunk_transaction dev k beg n amounts)
                                                 [0 ..< chunk_count k n]) \<and>
               concat (map (chunk_payload (phaseBalancer dev) k beg n amounts) [0 ..< chunk_count k n])
                 = concat (map (\<lambda>x. channel_bytes (phaseBalancer dev) (beg + int x) (amounts x))
                               [0 ..< n])))"
proof (intro conjI impI)
  assume "beg < 0 \<or> 15 < beg \<or> count \<le> 0"
  then consider "beg < 0 \<or> 15 < beg \<or> count < 0" | "0 \<le> beg" "beg \<le> 15" "count = 0"
    by linarith
  then show "setChannelsPWM wire bufferLength beg count amounts dev = Some dev"
  proof cases
    case 1
    then show ?thesis by (auto simp add: setChannelsPWM_def)
  next
    case 2
    then show ?thesis
      by (simp add: setChannelsPWM_valid setChannelsPWM_loop_done)
  qed
next
  assume a: "0 \<le> beg \<and> beg \<le> 15 \<and> 0 \<le> count"
  then have "0 \<le> min count (16 - beg)" by simp
  then show "setChannelsPWM wire bufferLength beg count amounts dev =
            setChannelsPWM wire bufferLength beg (min count (16 - beg)) amounts dev"
    using a by (simp add: setChannelsPWM_valid)
next
  assume a: "0 \<le> beg \<and> beg \<le> 15 \<and> 0 \<le> count \<and> 5 \<le> bufferLength \<and>
          k = nat ((bufferLength - 1) div 4) \<and> n = nat (min count (16 - beg)) \<and>
          (\<forall>i<chunk_count k n. endTransmission wire (bus_after dev k beg n amounts (Suc i)) = 0)"
  then have beg: "0 \<le> beg" "beg \<le> 15" and count: "0 \<le> count" and L: "5 \<le> bufferLength"
    and k: "k = nat ((bufferLength - 1) div 4)" and n: "n = nat (min count (16 - beg))"
    and ok: "\<forall>i<chunk_count k n. endTransmission wire (bus_after dev k beg n amounts (Suc i)) = 0"
    by blast+
  have kpos: "0 < k" using L k by simp
  have "\<not> chunk_count k n * k < n"
    using chunk_count_less [OF kpos, of "chunk_count k n" n] by simp
  then have all: "min n (chunk_count k n * k) = n" by simp
  have flat: "concat (map (chunk_payload (phaseBalancer dev) k beg n amounts) [0 ..< chunk_count k n])
      = concat (map (\<lambda>x. channel_bytes (phaseBalancer dev) (beg + int x) (amounts x)) [0 ..< n])"
    using chunk_payload_concat [OF kpos order_refl, where n = n and balancer = "phaseBalancer dev"
        and beg = beg and amounts = amounts]
    by (simp only: all)
  obtain dev' where "setChannelsPWM_loop wire bufferLength amounts
            \<lparr>device = dev, begChannel = beg, numChannels = int n, pwmAmounts = 0\<rparr> = Some dev'"
      and "bus dev' = bus_after dev k beg n amounts (chunk_count k n)"
    using setChannelsPWM_loop_success [OF L beg(1) k ok] by blast
  then have "setChannelsPWM wire bufferLength beg count amounts dev = Some dev' \<and>
               bus dev' = bus dev @ concat (map (chunk_transaction dev k beg n amounts)
                                                 [0 ..< chunk_count k n])"
    by (simp add: setChannelsPWM_valid [OF beg count] n bus_after_def)
  with flat show "\<exists>dev'. setChannelsPWM wire bufferLength beg count amounts dev = Some dev' \<and>
               bus dev' = bus dev @ concat (map (chunk_transaction dev k beg n amounts)
                                                 [0 ..< chunk_count k n]) \<and>
               concat (map (chunk_payload (phaseBalancer dev) k beg n amounts) [0 ..< chunk_count k n])
                 = concat (map (\<lambda>x. channel_bytes (phaseBalancer dev) (beg + int x) (amounts x))
                               [0 ..< n])"
    by blast
qed

theorem setChannelsPWM_clips_witness:
  "setChannelsPWM wire_ok 32 0 20 (\<lambda>i. 2048) dev0 = setChannelsPWM wire_ok 32 0 16 (\<lambda>i. 2048) dev0 \<and>
   setChannelsPWM wire_ok 32 10 10 (\<lambda>i. 2048) dev0 = setChannelsPWM wire_ok 32 10 6 (\<lambda>i. 2048) dev0 \<and>
   setChannelsPWM wire_ok 32 3 0 (\<lambda>i. 2048) dev0 = Some dev0 \<and>
   setChannelsPWM wire_ok 32 16 4 (\<lambda>i. 2048) dev0 = Some dev0 \<and>
   (\<exists>dev'. setChannelsPWM wire_ok 32 0 20 (\<lambda>i. 2048) dev0 = Some dev' \<and>
      bus dev' = bus dev0 @ concat (map (chunk_transaction dev0 7 0 16 (\<lambda>i. 2048)) [0 ..< 3]) \<and>
      concat (map (chunk_payload (phaseBalancer dev0) 7 0 16 (\<lambda>i. 2048)) [0 ..< 3])
        = concat (map (\<lambda>x. channel_bytes (phaseBalancer dev0) (0 + int x) 2048) [0 ..< 16])) \<and>
   (\<exists>dev'. setChannelsPWM wire_ok 32 10 10 (\<lambda>i. 2048) dev0 = Some dev' \<and>
      bus dev' = bus dev0 @ concat (map (chunk_transaction dev0 7 10 6 (\<lambda>i. 2048)) [0 ..< 1]) \<and>
      concat (map (chunk_payload (phaseBalancer dev0) 7 10 6 (\<lambda>i. 2048)) [0 ..< 1])
        = concat (map (\<lambda>x. channel_bytes (phaseBalancer dev0) (10 + int x) 2048) [0 ..< 6]))"
proof -
  have c: "chunk_count 7 16 = 3" "chunk_count 7 6 = 1" by (simp_all add: chunk_count_def)
  have ok: "\<forall>i<chunk_count 7 n. endTransmission wire_ok (bus_after dev0 7 beg n (\<lambda>i. 2048) (Suc i)) = 0"
    for n beg
    by (simp add: wire_ok_def)
  note full = setChannelsPWM_clips [of 0 20 wire_ok 32 "\<lambda>i. 2048" dev0 7 16]
  note tail = setChannelsPWM_clips [of 10 10 wire_ok 32 "\<lambda>i. 2048" dev0 7 6]
  note none = setChannelsPWM_clips [of 3 0 wire_ok 32 "\<lambda>i. 2048" dev0 7 0]
  note invalid = setChannelsPWM_clips [of 16 4 wire_ok 32 "\<lambda>i. 2048" dev0 7 0]
  have "setChannelsPWM wire_ok 32 0 20 (\<lambda>i. 2048) dev0 = setChannelsPWM wire_ok 32 0 16 (\<lambda>i. 2048) dev0"
    using full [THEN conjunct2, THEN conjunct1] by simp
  moreover have "setChannelsPWM wire_ok 32 10 10 (\<lambda>i. 2048) dev0 = setChannelsPWM wire_ok 32 10 6 (\<lambda>i. 2048) dev0"
    using tail [THEN conjunct2, THEN conjunct1] by simp
  moreover have "setChannelsPWM wire_ok 32 3 0 (\<lambda>i. 2048) dev0 = Some dev0"
    using none [THEN conjunct1] by simp
  moreover have "setChannelsPWM wire_ok 32 16 4 (\<lambda>i. 2048) dev0 = Some dev0"
    using invalid [THEN conjunct1] by simp
  moreover have "\<exists>dev'. setChannelsPWM wire_ok 32 0 20 (\<lambda>i. 2048) dev0 = Some dev' \<and>
      bus dev' = bus dev0 @ concat (map (chunk_transaction dev0 7 0 16 (\<lambda>i. 2048)) [0 ..< 3]) \<and>
      concat (map (chunk_payload (phaseBalancer dev0) 7 0 16 (\<lambda>i. 2048)) [0 ..< 3])
        = concat (map (\<lambda>x. channel_bytes (phaseBalancer dev0) (0 + int x) 2048) [0 ..< 16])"
    using full [THEN conjunct2, THEN conjunct2] ok [of 16 0] unfolding c by simp
  moreover have "\<exists>dev'. setChannelsPWM wire_ok 32 10 10 (\<lambda>i. 2048) dev0 = Some dev' \<and>
      bus dev' = bus dev0 @ concat (map (chunk_transaction dev0 7 10 6 (\<lambda>i. 2048)) [0 ..< 1]) \<and>
      concat (map (chunk_payload (phaseBalancer dev0) 7 10 6 (\<lambda>i. 2048)) [0 ..< 1])
        = concat (map (\<lambda>x. channel_bytes (phaseBalancer dev0) (10 + int x) 2048) [0 ..< 6])"
    using tail [THEN conjunct2, THEN conjunct2] ok [of 6 10] unfolding c by simp
  ultimately show ?thesis by blast
qed

section \<open>Reading a channel back\<close>

lemma getChannelPWM_drain_run:
  "getChannelPWM_drain wire (int n) dev = dev\<lparr>bus := bus dev @ replicate n Read\<rparr>"
proof (induction n arbitrary: dev)
  case 0
  show ?case by (subst getChannelPWM_drain.simps) simp
next
  case (Suc n)
  have "getChannelPWM_drain wire (int (Suc n)) dev =
        getChannelPWM_drain wire (int n) (snd (i2cWire_read wire dev))"
    by (subst getChannelPWM_drain.simps) simp
  also have "\<dots> = dev\<lparr>bus := bus dev @ replicate (Suc n) Read\<rparr>"
    unfolding Suc.IH by (simp add: i2cWire_read_def Let_def replicate_app_Cons_same)
  finally show ?case .
qed

lemma getChannelPWM_drain_uint:
  "getChannelPWM_drain wire (uint (r :: byte)) dev = dev\<lparr>bus := bus dev @ replicate (unat r) Read\<rparr>"
  using getChannelPWM_drain_run [of wire "unat r" dev] by simp

text \<open>
  C8. When the register address has been sent without error and the transport then
  delivers a number of bytes other than the 4 requested, \<open>getChannelPWM\<close> reads that
  many bytes and drops them, sets the last error to 4 and returns 0.
\<close>

theorem getChannelPWM_size_mismatch:
  assumes "0 \<le> channel" and "channel \<le> 15" and "\<not> isProxyAddresser dev"
    and "sent = bus dev @ [BeginTransmission (i2cAddr dev), Write (word_of_int (6 + 4 * channel)),
                           EndTransmission]"
    and "endTransmission wire sent = 0"
    and "received = requestFrom wire (sent @ [RequestFrom (i2cAddr dev) 4])"
    and "received \<noteq> 4"
  shows "getChannelPWM wire channel dev =
           (0, dev\<lparr>lastI2CError := 4,
                     bus := sent @ [RequestFrom (i2cAddr dev) 4] @ replicate (unat received) Read\<rparr>)"
proof -
  have reg: "(word_of_int (uint PCA9685_LED0_REG + push_bit 2 channel) :: byte)
      = word_of_int (6 + 4 * channel)"
    by (simp add: PCA9685_LED0_REG_def push_bit_eq_mult mult.commute)
  have n4: "uint received \<noteq> 4"
  proof
    assume "uint received = 4"
    then have "word_of_int (uint received) = (word_of_int 4 :: byte)" by (simp only:)
    then have "received = 4" by simp
    with assms(7) show False by simp
  qed
  show ?thesis
    using assms(1,2,3) n4 assms(5) [unfolded assms(4)] 
    unfolding getChannelPWM_def reg
    by (simp add: Let_def i2cWire_write_def i2cWire_beginTransmission_def
        i2cWire_endTransmission_def i2cWire_requestFrom_def getChannelPWM_drain_uint assms(4,6))
qed

theorem getChannelPWM_size_mismatch_witness:
  "getChannelPWM wire_short 5 dev0 =
     (0, dev0\<lparr>lastI2CError := 4,
               bus := [BeginTransmission 0x40, Write 26, EndTransmission, RequestFrom 0x40 4,
                       Read, Read, Read]\<rparr>)"
proof -
  have "unat (3 :: byte) = 3" by simp
  then have r: "replicate (unat (3 :: byte)) Read = [Read, Read, Read]"
    by (simp add: numeral_3_eq_3)
  have "0 \<le> (5 :: int)" "(5 :: int) \<le> 15" "\<not> isProxyAddresser dev0"
    "[BeginTransmission 0x40, Write 26, EndTransmission]
       = bus dev0 @ [BeginTransmission (i2cAddr dev0), Write (word_of_int (6 + 4 * 5)), EndTransmission]"
    "endTransmission wire_short [BeginTransmission 0x40, Write 26, EndTransmission] = 0"
    "(3 :: byte) = requestFrom wire_short
       ([BeginTransmission 0x40, Write 26, EndTransmission] @ [RequestFrom (i2cAddr dev0) 4])"
    "(3 :: byte) \<noteq> 4"
    by (simp_all add: dev0_def wire_short_def)
  from getChannelPWM_size_mismatch [OF this] show ?thesis
    unfolding r by (simp add: dev0_def)
qed

section \<open>Servo curves\<close>

text \<open>
  C9 as it is worded, with the angle passed as it stands, fails: \<open>pwmForAngle\<close> adds 90
  to its argument before it evaluates the curve, so the angle 0 gives the middle
  calibration value (307, not 102) and the angle 90 the greatest one (512, not 300).
\<close>

theorem pwmForAngle_unshifted_counterexample:
  "pwmForAngle (PCA9685_ServoEval3 102 307 512) 0 = Some 307 \<and>
   pwmForAngle (PCA9685_ServoEval3 102 300 512) 90 = Some 512"
proof
  show "pwmForAngle (PCA9685_ServoEval3 102 307 512) 0 = Some 307" by code_simp
  show "pwmForAngle (PCA9685_ServoEval3 102 300 512) 90 = Some 512" by code_simp
qed

text \<open>
  C9, amended. The calibration values (102, 307, 512) are equally spaced and give the
  linear model, for which \<open>pwmForAngle\<close> is 102 at the angle -90 and 512 at the angle 90
  (and at 180, which is clamped to 90); the values (102, 300, 512) give the cubic spline,
  for which \<open>pwmForAngle\<close> is exactly 300 at the angle 0.
\<close>

theorem pwmForAngle_calibration_points:
  "\<not> isCSpline (PCA9685_ServoEval3 102 307 512) \<and>
   pwmForAngle (PCA9685_ServoEval3 102 307 512) (- 90) = Some 102 \<and>
   pwmForAngle (PCA9685_ServoEval3 102 307 512) 90 = Some 512 \<and>
   pwmForAngle (PCA9685_ServoEval3 102 307 512) 180 = Some 512 \<and>
   isCSpline (PCA9685_ServoEval3 102 300 512) \<and>
   pwmForAngle (PCA9685_ServoEval3 102 300 512) 0 = Some 300"
proof (intro conjI)
  show "\<not> isCSpline (PCA9685_ServoEval3 102 307 512)" by code_simp
  show "pwmForAngle (PCA9685_ServoEval3 102 307 512) (- 90) = Some 102" by code_simp
  show "pwmForAngle (PCA9685_ServoEval3 102 307 512) 90 = Some 512" by code_simp
  show "pwmForAngle (PCA9685_ServoEval3 102 307 512) 180 = Some 512" by code_simp
  show "isCSpline (PCA9685_ServoEval3 102 300 512)" by code_simp
  show "pwmForAngle (PCA9685_ServoEval3 102 300 512) 0 = Some 300" by code_simp
qed

end
